theory Spec2Isabelle
  imports Main "HOL-Library.Word" "HOL-Library.Multiset" "HOL-Library.AList"
begin

section \<open>Strings of the Go runtime\<close>

text \<open>
  A Go string is a sequence of bytes; it is modelled as a \<open>string\<close> (a list of 8-bit
  characters). The functions of this section are the functions of the Go standard library
  the plugin calls, on the Unix build (path separator \<open>/\<close>, no volume names).
\<close>

definition isASCII :: "char \<Rightarrow> bool" where
  "isASCII c = (of_char c < (128::nat))"

definition lowerASCII :: "char \<Rightarrow> char" where
  "lowerASCII c =
     (case map_of (zip ''ABCDEFGHIJKLMNOPQRSTUVWXYZ'' ''abcdefghijklmnopqrstuvwxyz'') c of
        Some d \<Rightarrow> d
      | None \<Rightarrow> c)"

text \<open>
  \<open>strings.ToLower\<close>: a string of ASCII bytes only is lowered byte by byte; any other
  string goes through \<open>strings.Map(unicode.ToLower, s)\<close>, whose Unicode tables are the
  parameter \<open>ulower\<close>.
\<close>

definition ToLower :: "(string \<Rightarrow> string) \<Rightarrow> string \<Rightarrow> string" where
  "ToLower ulower s = (if list_all isASCII s then map lowerASCII s else ulower s)"

definition HasPrefix :: "string \<Rightarrow> string \<Rightarrow> bool" where
  "HasPrefix s p = (take (length p) s = p)"

definition HasSuffix :: "string \<Rightarrow> string \<Rightarrow> bool" where
  "HasSuffix s x = (length x \<le> length s \<and> drop (length s - length x) s = x)"

definition TrimPrefix :: "string \<Rightarrow> string \<Rightarrow> string" where
  "TrimPrefix s p = (if HasPrefix s p then drop (length p) s else s)"


text \<open>
  \<open>strings.TrimSpace\<close> removes the leading and the trailing white space that
  \<open>unicode.IsSpace\<close> recognises. On bytes these are the six ASCII characters and the
  UTF-8 encodings of U+0085, U+00A0, U+1680, U+2000 to U+200A, U+2028, U+2029, U+202F,
  U+205F and U+3000; a byte sequence that is not valid UTF-8 decodes to the replacement
  rune, which is never white space.
\<close>

definition spaceRunes :: "string list" where
  "spaceRunes =
     [[CHR 0x09], [CHR 0x0A], [CHR 0x0B], [CHR 0x0C], [CHR 0x0D], [CHR 0x20],
      [CHR 0xC2, CHR 0x85], [CHR 0xC2, CHR 0xA0], [CHR 0xE1, CHR 0x9A, CHR 0x80],
      [CHR 0xE2, CHR 0x80, CHR 0x80], [CHR 0xE2, CHR 0x80, CHR 0x81],
      [CHR 0xE2, CHR 0x80, CHR 0x82], [CHR 0xE2, CHR 0x80, CHR 0x83],
      [CHR 0xE2, CHR 0x80, CHR 0x84], [CHR 0xE2, CHR 0x80, CHR 0x85],
      [CHR 0xE2, CHR 0x80, CHR 0x86], [CHR 0xE2, CHR 0x80, CHR 0x87],
      [CHR 0xE2, CHR 0x80, CHR 0x88], [CHR 0xE2, CHR 0x80, CHR 0x89],
      [CHR 0xE2, CHR 0x80, CHR 0x8A], [CHR 0xE2, CHR 0x80, CHR 0xA8],
      [CHR 0xE2, CHR 0x80, CHR 0xA9], [CHR 0xE2, CHR 0x80, CHR 0xAF],
      [CHR 0xE2, CHR 0x81, CHR 0x9F], [CHR 0xE3, CHR 0x80, CHR 0x80]]"

text \<open>The encoding of a white-space rune that \<open>s\<close> starts with, if there is one.\<close>

definition leadingRune :: "string list \<Rightarrow> string \<Rightarrow> string option" where
  "leadingRune rs s = find (\<lambda>r. r \<noteq> [] \<and> HasPrefix s r) rs"

function dropRunes :: "string list \<Rightarrow> string \<Rightarrow> string" where
  "dropRunes rs s =
     (case leadingRune rs s of
        None \<Rightarrow> s
      | Some r \<Rightarrow> dropRunes rs (drop (length r) s))"
  by pat_completeness auto
termination
proof (relation "measure (\<lambda>(rs, s). length s)")
  show "wf (measure (\<lambda>(rs, s). length s))" by simp
next
  fix rs :: "string list" and s r :: string
  assume "leadingRune rs s = Some r"
  then have "r \<noteq> [] \<and> HasPrefix s r"
    unfolding leadingRune_def by (auto dest: find_Some_iff [THEN iffD1])
  then have "0 < length r" "length r \<le> length s"
    unfolding HasPrefix_def by (auto simp: min_def split: if_splits dest: arg_cong [where f = length])
  then show "((rs, drop (length r) s), (rs, s)) \<in> measure (\<lambda>(rs, s). length s)"
    by (cases r) simp_all
qed

declare dropRunes.simps [simp del]

definition TrimSpace :: "string \<Rightarrow> string" where
  "TrimSpace s = rev (dropRunes (map rev spaceRunes) (rev (dropRunes spaceRunes s)))"

subsection \<open>Package \<open>path/filepath\<close>\<close>

text \<open>The elements of a path: the pieces between its separators, empty ones included.\<close>

fun splitSep :: "string \<Rightarrow> string list" where
  "splitSep [] = [[]]"
| "splitSep (c # s) =
     (if c = CHR ''/'' then [] # splitSep s
      else (case splitSep s of [] \<Rightarrow> [[c]] | x # xs \<Rightarrow> (c # x) # xs))"

text \<open>
  \<open>filepath.Clean\<close> reads the elements from left to right and keeps the elements written
  so far: an empty element and \<open>.\<close> are dropped; \<open>..\<close> removes the last element written
  unless nothing but \<open>..\<close> elements were written, in which case it is dropped on a rooted
  path and written on a relative one; any other element is written.
\<close>

definition cleanElem :: "bool \<Rightarrow> string list \<Rightarrow> string \<Rightarrow> string list" where
  "cleanElem rooted out e =
     (if e = [] \<or> e = ''.'' then out
      else if e = ''..'' then
        (if out \<noteq> [] \<and> last out \<noteq> ''..'' then butlast out
         else if rooted then out
         else out @ [''..''])
      else out @ [e])"

fun joinSep :: "string list \<Rightarrow> string" where
  "joinSep [] = []"
| "joinSep [e] = e"
| "joinSep (e # es) = e @ ''/'' @ joinSep es"

definition Clean :: "string \<Rightarrow> string" where
  "Clean path =
     (let rooted = HasPrefix path ''/'';
          out = foldl (cleanElem rooted) [] (splitSep path)
      in if rooted then ''/'' @ joinSep out
         else if out = [] then ''.''
         else joinSep out)"

text \<open>\<open>filepath.Join(a, b)\<close>: empty leading elements are ignored, the rest is cleaned.\<close>

definition Join :: "string \<Rightarrow> string \<Rightarrow> string" where
  "Join a b =
     (if a \<noteq> [] then Clean (a @ ''/'' @ b)
      else if b \<noteq> [] then Clean b
      else [])"

definition Base :: "string \<Rightarrow> string" where
  "Base path =
     (if path = [] then ''.''
      else
        (let stripped = rev (dropWhile (\<lambda>c. c = CHR ''/'') (rev path));
             elem = rev (takeWhile (\<lambda>c. c \<noteq> CHR ''/'') (rev stripped))
         in if elem = [] then ''/'' else elem))"

definition Dir :: "string \<Rightarrow> string" where
  "Dir path = Clean (rev (dropWhile (\<lambda>c. c \<noteq> CHR ''/'') (rev path)))"

subsection \<open>The two regular expressions\<close>

text \<open>
  Go's \<open>regexp\<close> reads \<open>\s\<close> as one of tab, line feed, form feed, carriage return and
  space (the vertical tab is not in the class), \<open>\S\<close> as any other character, and \<open>.\<close>
  as any character but the line feed. A byte outside ASCII belongs to a rune that is in
  \<open>\S\<close> and in \<open>.\<close>, so the matchers below work on bytes.
\<close>

definition isHex :: "char \<Rightarrow> bool" where
  "isHex c = (c \<in> set ''0123456789abcdefABCDEF'')"

definition reSpace :: "char \<Rightarrow> bool" where
  "reSpace c = (c \<in> set [CHR 0x09, CHR 0x0A, CHR 0x0C, CHR 0x0D, CHR 0x20])"

definition reNonSpace :: "char \<Rightarrow> bool" where
  "reNonSpace c = (\<not> reSpace c)"

text \<open>
  \<open>reChecksumLine = ^([a-fA-F0-9]{32,128})\s+(.+)$\<close>, as \<open>FindStringSubmatch\<close> applies
  it: the result is the pair of the two groups, or \<open>None\<close> where Go returns \<open>nil\<close>.
  The first group is followed by \<open>\s\<close>, so it is the whole leading run of hexadecimal
  digits. The greedy \<open>\s+\<close> takes the whole run of white space that follows, unless
  nothing is left for \<open>.+\<close>; then it gives back its last character.
\<close>

definition reChecksumLine :: "string \<Rightarrow> (string \<times> string) option" where
  "reChecksumLine line =
     (let hash = takeWhile isHex line;
          rest = dropWhile isHex line;
          ws = takeWhile reSpace rest;
          name = dropWhile reSpace rest
      in if length hash < 32 \<or> 128 < length hash \<or> ws = [] then None
         else if name \<noteq> [] then
           (if CHR 0x0A \<in> set name then None else Some (hash, name))
         else if 2 \<le> length ws \<and> last ws \<noteq> CHR 0x0A then Some (hash, [last ws])
         else None)"

text \<open>
  \<open>reGoSumLine = ^(\S+)\s+(\S+)\s+(h1:\S+)$\<close>: three runs of \<open>\S\<close> separated by two
  runs of \<open>\s\<close>; the third run starts with \<open>h1:\<close>, has at least one more character
  and ends the line.
\<close>

definition reGoSumLine :: "string \<Rightarrow> (string \<times> string \<times> string) option" where
  "reGoSumLine line =
     (let module = takeWhile reNonSpace line;
          r1 = dropWhile reNonSpace line;
          w1 = takeWhile reSpace r1;
          r2 = dropWhile reSpace r1;
          ver = takeWhile reNonSpace r2;
          r3 = dropWhile reNonSpace r2;
          w2 = takeWhile reSpace r3;
          hash = dropWhile reSpace r3
      in if module \<noteq> [] \<and> w1 \<noteq> [] \<and> ver \<noteq> [] \<and> w2 \<noteq> [] \<and>
            HasPrefix hash ''h1:'' \<and> 3 < length hash \<and> list_all reNonSpace hash
         then Some (module, ver, hash)
         else None)"

subsection \<open>Digests\<close>

text \<open>
  \<open>sha256.Sum256\<close> returns 32 bytes, here one 256-bit word whose most significant byte
  is the first byte of the array. \<open>hex.EncodeToString\<close> writes two lower-case
  hexadecimal digits for every byte, first byte first.
\<close>

definition hexDigit :: "nat \<Rightarrow> char" where
  "hexDigit n = ''0123456789abcdef'' ! (n mod 16)"

definition EncodeToString :: "256 word \<Rightarrow> string" where
  "EncodeToString h = map (\<lambda>i. hexDigit (unat (drop_bit (4 * (63 - i)) h))) [0..<64]"

section \<open>Findings\<close>

datatype severity = SeverityCritical | SeverityHigh | SeverityMedium

datatype confidence = ConfidenceHigh | ConfidenceMedium

record finding =
  ruleId :: string
  severity :: severity
  confidence :: confidence
  message :: string
  locFile :: string
  locStart :: nat
  locEnd :: nat
  metadata :: "(string \<times> string) list"

text \<open>
  The response builder of the SDK collects findings in the order of the calls to
  \<open>Done\<close>; a response under construction is the list of the findings reported so far.
  The metadata of a finding is a table from keys to values, kept as an association list.
\<close>

definition Finding :: "string \<Rightarrow> severity \<Rightarrow> confidence \<Rightarrow> string \<Rightarrow> finding" where
  "Finding r s c m =
     \<lparr>ruleId = r, severity = s, confidence = c, message = m,
      locFile = [], locStart = 0, locEnd = 0, metadata = []\<rparr>"

definition At :: "finding \<Rightarrow> string \<Rightarrow> nat \<Rightarrow> nat \<Rightarrow> finding" where
  "At f p a b = f\<lparr>locFile := p, locStart := a, locEnd := b\<rparr>"

definition WithMetadata :: "finding \<Rightarrow> string \<Rightarrow> string \<Rightarrow> finding" where
  "WithMetadata f k v = f\<lparr>metadata := AList.update k v (metadata f)\<rparr>"

definition Done :: "finding list \<Rightarrow> finding \<Rightarrow> finding list" where
  "Done resp f = resp @ [f]"

section \<open>The fixed tables of the plugin\<close>

text \<open>
  Each table of the source is a map from names to \<open>true\<close>; it is kept as the list of
  its keys. A lookup is membership in the list, a \<open>range\<close> loop visits the list.
\<close>

definition releaseArtifactExtensions :: "string list" where
  "releaseArtifactExtensions =
     [''.tar.gz'', ''.tgz'', ''.zip'', ''.tar.bz2'', ''.tar.xz'', ''.deb'', ''.rpm'',
      ''.whl'', ''.gem'', ''.jar'', ''.war'', ''.apk'']"

definition signatureExtensions :: "string list" where
  "signatureExtensions = [''.sig'', ''.asc'', ''.sign'', ''.gpg'', ''.minisig'']"

definition checksumExtensions :: "string list" where
  "checksumExtensions =
     [''.sha256'', ''.sha512'', ''.sha256sum'', ''.sha512sum'', ''.md5'', ''.md5sum'']"

definition checksumFileNames :: "string list" where
  "checksumFileNames =
     [''SHA256SUMS'', ''SHA512SUMS'', ''CHECKSUMS'', ''checksums.txt'', ''CHECKSUMS.txt'']"

definition lockfileNames :: "string list" where
  "lockfileNames =
     [''package-lock.json'', ''yarn.lock'', ''go.sum'', ''Gemfile.lock'', ''poetry.lock'',
      ''Cargo.lock'', ''composer.lock'']"

definition skippedDirs :: "string list" where
  "skippedDirs = [''.git'', ''vendor'', ''node_modules'', ''__pycache__'', ''.venv'']"

section \<open>The world around a scan\<close>

text \<open>
  A directory entry as \<open>filepath.WalkDir\<close> sees it: a file (anything that is not a
  directory) with its name, or a directory with its name, the entries \<open>os.ReadDir\<close>
  returned for it, and whether \<open>os.ReadDir\<close> reported an error with them.
\<close>

datatype fsnode = File string | Directory string "fsnode list" bool

fun nodeName :: "fsnode \<Rightarrow> string" where
  "nodeName (File n) = n"
| "nodeName (Directory n es e) = n"

fun IsDir :: "fsnode \<Rightarrow> bool" where
  "IsDir (File n) = False"
| "IsDir (Directory n es e) = True"

text \<open>The package table of \<open>npmLockfile\<close>: one entry of the \<open>packages\<close> object.\<close>

record npmPackage =
  Version :: string
  Resolved :: string
  Integrity :: string

text \<open>
  What a scan reads from outside the program. A result \<open>None\<close> stands for the error
  return of the call.
  \<^item> \<open>ulower\<close>: the Unicode part of \<open>strings.ToLower\<close>;
  \<^item> \<open>Lstat\<close>: the tree found at a root path by \<open>os.Lstat\<close> and \<open>os.ReadDir\<close>;
  \<^item> \<open>OpenLines\<close>: \<open>os.Open\<close> followed by a \<open>bufio.Scanner\<close>: the texts of the lines
    the scanner delivers before \<open>Scan\<close> returns false;
  \<^item> \<open>ReadFile\<close>: \<open>os.ReadFile\<close>;
  \<^item> \<open>Sum256\<close>: \<open>sha256.Sum256\<close>;
  \<^item> \<open>Unmarshal\<close>: \<open>json.Unmarshal\<close> into an \<open>npmLockfile\<close>: the entries of its
    \<open>Packages\<close> map, listed in the order in which the \<open>range\<close> loop of this run
    visits them. The keys of a Go map are distinct; the order is not fixed by the language.
\<close>

record world =
  ulower :: "string \<Rightarrow> string"
  Lstat :: "string \<Rightarrow> fsnode option"
  OpenLines :: "string \<Rightarrow> string list option"
  ReadFile :: "string \<Rightarrow> string option"
  Sum256 :: "string \<Rightarrow> 256 word"
  Unmarshal :: "string \<Rightarrow> (string \<times> npmPackage) list option"

text \<open>
  A context is done from some moment on, and then reports one error for ever. The scan
  looks at the context at certain points of its run, numbered from 0; a context is
  \<open>None\<close> if it is never done during the run, and \<open>Some (k, e)\<close> if the look number
  \<open>k\<close> is the first to find it done, with error \<open>e\<close>.
\<close>

datatype ctxError = Canceled | DeadlineExceeded

type_synonym goContext = "(nat \<times> ctxError) option"

definition ctxErr :: "goContext \<Rightarrow> nat \<Rightarrow> ctxError option" where
  "ctxErr ctx n = (case ctx of None \<Rightarrow> None | Some (k, e) \<Rightarrow> if k \<le> n then Some e else None)"

section \<open>The checks\<close>

fun isReleaseArtifactLoop :: "string \<Rightarrow> string list \<Rightarrow> bool" where
  "isReleaseArtifactLoop lower [] = False"
| "isReleaseArtifactLoop lower (ext # exts) =
     (if HasSuffix lower ext then True else isReleaseArtifactLoop lower exts)"

definition isReleaseArtifact :: "world \<Rightarrow> string \<Rightarrow> bool" where
  "isReleaseArtifact w name =
     isReleaseArtifactLoop (ToLower (ulower w) name) releaseArtifactExtensions"

fun hasCompanionFile :: "string \<Rightarrow> string \<Rightarrow> string set \<Rightarrow> string list \<Rightarrow> bool" where
  "hasCompanionFile name dir fileSet [] = False"
| "hasCompanionFile name dir fileSet (ext # extensions) =
     (if Join dir (name @ ext) \<in> fileSet then True
      else hasCompanionFile name dir fileSet extensions)"

fun hasBulkChecksumFile :: "string \<Rightarrow> string set \<Rightarrow> string list \<Rightarrow> bool" where
  "hasBulkChecksumFile dir fileSet [] = False"
| "hasBulkChecksumFile dir fileSet (csName # names) =
     (if Join dir csName \<in> fileSet then True else hasBulkChecksumFile dir fileSet names)"

definition checkMissingChecksum ::
  "finding list \<Rightarrow> string \<Rightarrow> string \<Rightarrow> string \<Rightarrow> string set \<Rightarrow> finding list" where
  "checkMissingChecksum resp path name dir fileSet =
     (if hasCompanionFile name dir fileSet checksumExtensions then resp
      else if hasBulkChecksumFile dir fileSet checksumFileNames then resp
      else Done resp
        (WithMetadata
          (WithMetadata
            (At (Finding ''ARTINT-001'' SeverityHigh ConfidenceHigh
                  (''Release artifact '' @ name @ '' has no corresponding checksum file''))
              path 0 0)
            ''artifact'' name)
          ''type'' ''missing_checksum''))"

definition checkUnsignedArtifact ::
  "finding list \<Rightarrow> string \<Rightarrow> string \<Rightarrow> string \<Rightarrow> string set \<Rightarrow> finding list" where
  "checkUnsignedArtifact resp path name dir fileSet =
     (if hasCompanionFile name dir fileSet signatureExtensions then resp
      else Done resp
        (WithMetadata
          (WithMetadata
            (At (Finding ''ARTINT-002'' SeverityMedium ConfidenceMedium
                  (''Release artifact '' @ name @ '' has no signature file (.sig, .asc)''))
              path 0 0)
            ''artifact'' name)
          ''type'' ''unsigned_artifact''))"

subsection \<open>Checksum manifests\<close>

text \<open>
  One turn of the loop of \<open>checkChecksumMismatches\<close>, for the line numbered \<open>lineNum\<close>
  (the counter after its increment) with the text \<open>raw\<close>.
\<close>

definition checksumLine ::
  "world \<Rightarrow> string \<Rightarrow> string \<Rightarrow> nat \<Rightarrow> string \<Rightarrow> finding list \<Rightarrow> finding list" where
  "checksumLine w checksumFilePath dir lineNum raw resp =
     (let line = TrimSpace raw in
      if line = [] \<or> HasPrefix line ''#'' then resp
      else
        (case reChecksumLine line of
           None \<Rightarrow> resp
         | Some (m1, m2) \<Rightarrow>
             (let declaredHash = ToLower (ulower w) m1;
                  referencedFile = TrimPrefix (TrimSpace m2) ''*'';
                  targetPath = Join dir referencedFile
              in case ReadFile w targetPath of
                   None \<Rightarrow> resp
                 | Some data \<Rightarrow>
                     if length declaredHash = 64 then
                       (let actualHash = EncodeToString (Sum256 w data) in
                        if actualHash \<noteq> declaredHash then
                          Done resp
                            (WithMetadata
                              (WithMetadata
                                (At (Finding ''ARTINT-003'' SeverityCritical ConfidenceHigh
                                      (''Checksum mismatch for '' @ referencedFile @
                                       '': declared='' @ take 16 declaredHash @ ''...'' @
                                       '' actual='' @ take 16 actualHash @ ''...''))
                                  checksumFilePath lineNum lineNum)
                                ''file'' referencedFile)
                              ''type'' ''checksum_mismatch'')
                        else resp)
                     else resp)))"

fun checksumLoop ::
  "world \<Rightarrow> string \<Rightarrow> string \<Rightarrow> nat \<Rightarrow> string list \<Rightarrow> finding list \<Rightarrow> finding list" where
  "checksumLoop w checksumFilePath dir lineNum [] resp = resp"
| "checksumLoop w checksumFilePath dir lineNum (raw # texts) resp =
     checksumLoop w checksumFilePath dir (Suc lineNum) texts
       (checksumLine w checksumFilePath dir (Suc lineNum) raw resp)"

definition checkChecksumMismatches ::
  "world \<Rightarrow> finding list \<Rightarrow> string \<Rightarrow> string \<Rightarrow> finding list" where
  "checkChecksumMismatches w resp checksumFilePath dir =
     (case OpenLines w checksumFilePath of
        None \<Rightarrow> resp
      | Some texts \<Rightarrow> checksumLoop w checksumFilePath dir 0 texts resp)"

subsection \<open>Lockfiles\<close>

fun npmLoop :: "string \<Rightarrow> (string \<times> npmPackage) list \<Rightarrow> finding list \<Rightarrow> finding list" where
  "npmLoop filePath [] resp = resp"
| "npmLoop filePath ((pkgPath, pkg) # packages) resp =
     (if pkgPath = [] then npmLoop filePath packages resp
      else if Integrity pkg = [] \<and> Resolved pkg \<noteq> [] then
        npmLoop filePath packages
          (Done resp
            (WithMetadata
              (WithMetadata
                (WithMetadata
                  (At (Finding ''ARTINT-003'' SeverityCritical ConfidenceHigh
                        (''Lockfile entry missing integrity hash: '' @ pkgPath @ ''@'' @
                         Version pkg))
                    filePath 0 0)
                  ''package'' pkgPath)
                ''version'' (Version pkg))
              ''type'' ''missing_integrity''))
      else npmLoop filePath packages resp)"

definition checkNPMLockfileIntegrity :: "world \<Rightarrow> finding list \<Rightarrow> string \<Rightarrow> finding list" where
  "checkNPMLockfileIntegrity w resp filePath =
     (case ReadFile w filePath of
        None \<Rightarrow> resp
      | Some data \<Rightarrow>
          (case Unmarshal w data of
             None \<Rightarrow> resp
           | Some packages \<Rightarrow> npmLoop filePath packages resp))"

text \<open>
  One turn of the loop of \<open>checkGoSumIntegrity\<close>: the state is the table \<open>seen\<close> and
  the response.
\<close>

definition goSumLine ::
  "string \<Rightarrow> nat \<Rightarrow> string \<Rightarrow> (string \<rightharpoonup> string) \<times> finding list \<Rightarrow>
   (string \<rightharpoonup> string) \<times> finding list" where
  "goSumLine filePath lineNum raw st =
     (let seen = fst st; resp = snd st; line = TrimSpace raw in
      if line = [] then st
      else
        (case reGoSumLine line of
           None \<Rightarrow> st
         | Some (module, ver, hash) \<Rightarrow>
             (let key = module @ ''@'' @ ver;
                  resp' =
                    (case seen key of
                       None \<Rightarrow> resp
                     | Some existing \<Rightarrow>
                         if existing \<noteq> hash then
                           Done resp
                             (WithMetadata
                               (WithMetadata
                                 (WithMetadata
                                   (At (Finding ''ARTINT-003'' SeverityCritical ConfidenceHigh
                                         (''Duplicate go.sum entry with different hash for '' @
                                          key))
                                     filePath lineNum lineNum)
                                   ''module'' module)
                                 ''version'' ver)
                               ''type'' ''checksum_mismatch'')
                         else resp)
              in (seen(key \<mapsto> hash), resp'))))"

fun goSumLoop ::
  "string \<Rightarrow> nat \<Rightarrow> string list \<Rightarrow> (string \<rightharpoonup> string) \<times> finding list \<Rightarrow>
   (string \<rightharpoonup> string) \<times> finding list" where
  "goSumLoop filePath lineNum [] st = st"
| "goSumLoop filePath lineNum (raw # texts) st =
     goSumLoop filePath (Suc lineNum) texts (goSumLine filePath (Suc lineNum) raw st)"

definition checkGoSumIntegrity :: "world \<Rightarrow> finding list \<Rightarrow> string \<Rightarrow> finding list" where
  "checkGoSumIntegrity w resp filePath =
     (case OpenLines w filePath of
        None \<Rightarrow> resp
      | Some texts \<Rightarrow> snd (goSumLoop filePath 0 texts (Map.empty, resp)))"

definition checkLockfileIntegrity :: "world \<Rightarrow> finding list \<Rightarrow> string \<Rightarrow> finding list" where
  "checkLockfileIntegrity w resp filePath =
     (let name = Base filePath in
      if name = ''package-lock.json'' then checkNPMLockfileIntegrity w resp filePath
      else if name = ''go.sum'' then checkGoSumIntegrity w resp filePath
      else resp)"

section \<open>The scan\<close>

text \<open>The state the walk callback writes: the two collections and the number of looks
  at the context made so far.\<close>

record walkState =
  allFiles :: "string list"
  fileSet :: "string set"
  looks :: nat

datatype walkError = SkipDir | CtxError ctxError

text \<open>
  The function literal handed to \<open>filepath.WalkDir\<close>. Its third argument tells whether
  \<open>err\<close> is non-nil; the entry is absent when \<open>os.Lstat\<close> of the root failed.
\<close>

definition walkFn ::
  "goContext \<Rightarrow> string \<Rightarrow> fsnode option \<Rightarrow> bool \<Rightarrow> walkState \<Rightarrow> walkError option \<times> walkState" where
  "walkFn ctx path d err st =
     (if err then (None, st)
      else
        (case ctxErr ctx (looks st) of
           Some e \<Rightarrow> (Some (CtxError e), st\<lparr>looks := Suc (looks st)\<rparr>)
         | None \<Rightarrow>
             (let st1 = st\<lparr>looks := Suc (looks st)\<rparr> in
              case d of
                None \<Rightarrow> (None, st1)
              | Some (Directory n es e) \<Rightarrow>
                  if n \<in> set skippedDirs then (Some SkipDir, st1) else (None, st1)
              | Some (File n) \<Rightarrow>
                  (None, st1\<lparr>allFiles := allFiles st1 @ [path],
                              fileSet := insert path (fileSet st1)\<rparr>))))"

text \<open>
  \<open>filepath.walkDir\<close> of the standard library: the callback is called for the entry; a
  directory is then read, a read error is reported to the callback in a second call, and
  the entries are walked in the order \<open>os.ReadDir\<close> gave them.
\<close>

fun walkDir :: "goContext \<Rightarrow> string \<Rightarrow> fsnode \<Rightarrow> walkState \<Rightarrow> walkError option \<times> walkState"
  and walkEntries ::
    "goContext \<Rightarrow> string \<Rightarrow> fsnode list \<Rightarrow> walkState \<Rightarrow> walkError option \<times> walkState" where
  "walkDir ctx path (File n) st = walkFn ctx path (Some (File n)) False st"
| "walkDir ctx path (Directory n es e) st =
     (case walkFn ctx path (Some (Directory n es e)) False st of
        (Some err, st1) \<Rightarrow> (if err = SkipDir then (None, st1) else (Some err, st1))
      | (None, st1) \<Rightarrow>
          (case (if e then walkFn ctx path (Some (Directory n es e)) True st1 else (None, st1)) of
             (Some err, st2) \<Rightarrow> (if err = SkipDir then (None, st2) else (Some err, st2))
           | (None, st2) \<Rightarrow> walkEntries ctx path es st2))"
| "walkEntries ctx path [] st = (None, st)"
| "walkEntries ctx path (d1 # ds) st =
     (case walkDir ctx (Join path (nodeName d1)) d1 st of
        (Some err, st1) \<Rightarrow> (if err = SkipDir then (None, st1) else (Some err, st1))
      | (None, st1) \<Rightarrow> walkEntries ctx path ds st1)"

definition WalkDir :: "world \<Rightarrow> goContext \<Rightarrow> string \<Rightarrow> walkState \<Rightarrow> walkError option \<times> walkState" where
  "WalkDir w ctx root st =
     (case (case Lstat w root of
              None \<Rightarrow> walkFn ctx root None True st
            | Some info \<Rightarrow> walkDir ctx root info st) of
        (Some err, st1) \<Rightarrow> (if err = SkipDir then (None, st1) else (Some err, st1))
      | (None, st1) \<Rightarrow> (None, st1))"

text \<open>The body of the loop over \<open>allFiles\<close>, after the look at the context.\<close>

definition analyzeFile :: "world \<Rightarrow> string set \<Rightarrow> string \<Rightarrow> finding list \<Rightarrow> finding list" where
  "analyzeFile w files path resp =
     (let name = Base path;
          dir = Dir path;
          resp1 =
            (if isReleaseArtifact w name then
               checkUnsignedArtifact (checkMissingChecksum resp path name dir files)
                 path name dir files
             else resp);
          resp2 =
            (if name \<in> set checksumFileNames then checkChecksumMismatches w resp1 path dir
             else resp1)
      in if name \<in> set lockfileNames then checkLockfileIntegrity w resp2 path else resp2)"

fun analyzeLoop ::
  "world \<Rightarrow> goContext \<Rightarrow> string set \<Rightarrow> nat \<Rightarrow> string list \<Rightarrow> finding list \<Rightarrow> finding list" where
  "analyzeLoop w ctx files n [] resp = resp"
| "analyzeLoop w ctx files n (path # paths) resp =
     (case ctxErr ctx n of
        Some e \<Rightarrow> resp
      | None \<Rightarrow> analyzeLoop w ctx files (Suc n) paths (analyzeFile w files path resp))"

text \<open>
  The request: \<open>inputRoot\<close> is the value of \<open>req.Input["workspace_root"]\<close> when it is
  a string, \<open>WorkspaceRoot\<close> the field of that name. \<open>requestRoot\<close> is the root the
  scan settles on in its first lines.
\<close>

record toolRequest =
  inputRoot :: "string option"
  WorkspaceRoot :: string

definition requestRoot :: "toolRequest \<Rightarrow> string" where
  "requestRoot req =
     (let workspaceRoot = (case inputRoot req of None \<Rightarrow> [] | Some r \<Rightarrow> r)
      in if workspaceRoot = [] then WorkspaceRoot req else workspaceRoot)"

text \<open>
  The scan fails with the error of the walk, wrapped, unless that error is
  \<open>context.Canceled\<close>.
\<close>

datatype scanError = WalkingWorkspace walkError

definition handleScan :: "world \<Rightarrow> goContext \<Rightarrow> toolRequest \<Rightarrow> scanError + finding list" where
  "handleScan w ctx req =
     (let workspaceRoot = requestRoot req
      in if workspaceRoot = [] then Inr []
         else
           (case WalkDir w ctx workspaceRoot \<lparr>allFiles = [], fileSet = {}, looks = 0\<rparr> of
              (None, st) \<Rightarrow> Inr (analyzeLoop w ctx (fileSet st) (looks st) (allFiles st) [])
            | (Some err, st) \<Rightarrow>
                (if err \<noteq> CtxError Canceled then Inl (WalkingWorkspace err)
                 else Inr (analyzeLoop w ctx (fileSet st) (looks st) (allFiles st) []))))"

section \<open>Example worlds\<close>

text \<open>
  A small workspace: three lockfiles, a release directory with a manifest and a signed
  artifact, and a directory with one artifact that has a checksum file, one that has no
  companion at all, and a lockfile that does not parse.
\<close>

definition exTree :: fsnode where
  "exTree =
     Directory ''ws''
       [Directory ''dist''
          [File ''lib.zip'', File ''lib.zip.sha256'', File ''package-lock.json'',
           File ''tool.deb''] False,
        File ''go.sum'',
        File ''package-lock.json'',
        Directory ''release''
          [File ''SHA256SUMS'', File ''app.tar.gz'', File ''app.tar.gz.asc''] False,
        Directory ''vendor'' [File ''dep.jar''] False,
        File ''yarn.lock'']
       False"

definition exPackages :: "(string \<times> npmPackage) list" where
  "exPackages =
     [([], \<lparr>Version = ''1.0.0'', Resolved = ''https://r/app'', Integrity = []\<rparr>),
      (''node_modules/lodash'',
       \<lparr>Version = ''4.17.21'', Resolved = ''https://r/lodash'', Integrity = []\<rparr>),
      (''node_modules/safe'',
       \<lparr>Version = ''2.0.0'', Resolved = ''https://r/safe'', Integrity = ''sha512-abc''\<rparr>)]"

definition exManifest :: "string list" where
  "exManifest =
     [''# release checksums'',
      replicate 64 CHR ''0'' @ ''  app.tar.gz'',
      replicate 64 CHR ''1'' @ '' *app.tar.gz'',
      replicate 64 CHR ''1'' @ ''  missing.tar.gz'',
      replicate 32 CHR ''1'' @ ''  app.tar.gz'']"

definition exGoSum :: "string list" where
  "exGoSum =
     [''example.com/m v1.0.0 h1:aaa'',
      ''example.com/m v1.0.0 h1:aaa'',
      ''example.com/m v1.0.0 h1:bbb'',
      ''example.com/n v1.0.0 h1:ccc'']"

definition exWorld :: world where
  "exWorld =
     \<lparr>ulower = (\<lambda>s. s),
      Lstat = (\<lambda>p. if p = ''ws'' then Some exTree else None),
      OpenLines =
        (\<lambda>p. if p = ''ws/release/SHA256SUMS'' then Some exManifest
             else if p = ''ws/go.sum'' then Some exGoSum
             else None),
      ReadFile =
        (\<lambda>p. if p = ''ws/release/app.tar.gz'' then Some ''binary content''
             else if p = ''ws/package-lock.json'' then Some ''{ }''
             else if p = ''ws/dist/package-lock.json'' then Some ''{''
             else None),
      Sum256 = (\<lambda>d. 0),
      Unmarshal = (\<lambda>d. if d = ''{ }'' then Some exPackages else None)\<rparr>"

section \<open>Reference notions for the statements\<close>

text \<open>
  The entries of a module manifest: the groups of the lines that match \<open>reGoSumLine\<close>
  after trimming, in file order. The hash most recently recorded for a key by some lines
  is the hash of the last entry among them whose module and version, joined by \<open>@\<close>,
  give that key.
\<close>

definition goSumEntries :: "string list \<Rightarrow> (string \<times> string \<times> string) list" where
  "goSumEntries texts = List.map_filter (\<lambda>raw. reGoSumLine (TrimSpace raw)) texts"


text \<open>
  A module manifest of two lines with different modules and versions whose keys coincide,
  alone in a workspace.
\<close>

definition exCollision :: "string list" where
  "exCollision = [''a@b c h1:x'', ''a b@c h1:y'']"

definition exCollisionWorld :: world where
  "exCollisionWorld =
     \<lparr>ulower = (\<lambda>s. s),
      Lstat = (\<lambda>p. if p = ''ws'' then Some (Directory ''ws'' [File ''go.sum''] False) else None),
      OpenLines = (\<lambda>p. if p = ''ws/go.sum'' then Some exCollision else None),
      ReadFile = (\<lambda>p. None),
      Sum256 = (\<lambda>d. 0),
      Unmarshal = (\<lambda>d. None)\<rparr>"

text \<open>
  The files the loop of the scan reaches before it finds the context done, when its first
  look at the context has the number \<open>n\<close>; the file index of a scan, which is the state
  the walk leaves; the errors a walk can end with; and the agreement of the two
  collections of the index.
\<close>

definition analyzed :: "goContext \<Rightarrow> nat \<Rightarrow> string list \<Rightarrow> string list" where
  "analyzed ctx n paths = (case ctx of None \<Rightarrow> paths | Some (k, e) \<Rightarrow> take (k - n) paths)"

definition scanIndex :: "world \<Rightarrow> goContext \<Rightarrow> string \<Rightarrow> walkState" where
  "scanIndex w ctx root = snd (WalkDir w ctx root \<lparr>allFiles = [], fileSet = {}, looks = 0\<rparr>)"

definition walkOutcome :: "goContext \<Rightarrow> walkError option \<Rightarrow> bool" where
  "walkOutcome ctx r =
     (r = None \<or> r = Some SkipDir \<or> (\<exists>k e. ctx = Some (k, e) \<and> r = Some (CtxError e)))"

definition indexed :: "walkState \<Rightarrow> bool" where
  "indexed st = (fileSet st = set (allFiles st))"

definition exRequest :: toolRequest where
  "exRequest = \<lparr>inputRoot = Some ''ws'', WorkspaceRoot = []\<rparr>"

section \<open>Basic facts\<close>

text \<open>Every check only appends to the response it is given.\<close>

lemma checkMissingChecksum_append:
  "checkMissingChecksum resp path name dir files = resp @ checkMissingChecksum [] path name dir files"
  by (simp add: checkMissingChecksum_def Done_def)

lemma checkUnsignedArtifact_append:
  "checkUnsignedArtifact resp path name dir files = resp @ checkUnsignedArtifact [] path name dir files"
  by (simp add: checkUnsignedArtifact_def Done_def)

lemma checksumLine_append:
  "checksumLine w p dir n raw resp = resp @ checksumLine w p dir n raw []"
  by (simp add: checksumLine_def Done_def Let_def split: option.splits prod.splits)

lemma checksumLoop_append:
  "checksumLoop w p dir n texts resp = resp @ checksumLoop w p dir n texts []"
proof (induction texts arbitrary: n resp)
  case Nil
  show ?case by simp
next
  case (Cons raw texts)
  have "checksumLoop w p dir n (raw # texts) resp
      = checksumLine w p dir (Suc n) raw resp @ checksumLoop w p dir (Suc n) texts []"
    using Cons.IH [of "Suc n" "checksumLine w p dir (Suc n) raw resp"] by simp
  also have "\<dots> = resp @ checksumLine w p dir (Suc n) raw [] @ checksumLoop w p dir (Suc n) texts []"
    using checksumLine_append [of w p dir "Suc n" raw resp] by simp
  also have "\<dots> = resp @ checksumLoop w p dir n (raw # texts) []"
    using Cons.IH [of "Suc n" "checksumLine w p dir (Suc n) raw []"] by simp
  finally show ?case .
qed

lemma checkChecksumMismatches_append:
  "checkChecksumMismatches w resp p dir = resp @ checkChecksumMismatches w [] p dir"
  using checksumLoop_append [of w p dir 0 _ resp]
  by (simp add: checkChecksumMismatches_def split: option.splits)

lemma npmLoop_append: "npmLoop p pkgs resp = resp @ npmLoop p pkgs []"
proof (induction pkgs arbitrary: resp)
  case Nil
  show ?case by simp
next
  case (Cons e pkgs)
  obtain k pkg where e: "e = (k, pkg)" by (cases e)
  show ?case
    using Cons.IH [of resp] Cons.IH [of "Done resp _"] Cons.IH [of "Done [] _"]
    by (simp add: e Done_def)
qed

lemma checkNPMLockfileIntegrity_append:
  "checkNPMLockfileIntegrity w resp p = resp @ checkNPMLockfileIntegrity w [] p"
  using npmLoop_append [of p _ resp]
  by (simp add: checkNPMLockfileIntegrity_def split: option.splits)

lemma goSumLine_append:
  "goSumLine p n raw (seen, resp) = (fst (goSumLine p n raw (seen, [])), resp @ snd (goSumLine p n raw (seen, [])))"
  by (simp add: goSumLine_def Done_def Let_def split: option.splits prod.splits)

lemma goSumLoop_append:
  "goSumLoop p n texts (seen, resp) =
     (fst (goSumLoop p n texts (seen, [])), resp @ snd (goSumLoop p n texts (seen, [])))"
proof (induction texts arbitrary: n seen resp)
  case Nil
  show ?case by simp
next
  case (Cons raw texts)
  obtain seen1 new1 where g: "goSumLine p (Suc n) raw (seen, []) = (seen1, new1)"
    by (cases "goSumLine p (Suc n) raw (seen, [])")
  have g': "goSumLine p (Suc n) raw (seen, resp) = (seen1, resp @ new1)"
    using goSumLine_append [of p "Suc n" raw seen resp] g by simp
  show ?case
    using Cons.IH [of "Suc n" seen1 "resp @ new1"] Cons.IH [of "Suc n" seen1 new1]
    by (simp add: g g')
qed

lemma checkGoSumIntegrity_append:
  "checkGoSumIntegrity w resp p = resp @ checkGoSumIntegrity w [] p"
  using goSumLoop_append [of p 0 _ Map.empty resp]
  by (simp add: checkGoSumIntegrity_def split: option.splits)

lemma checkLockfileIntegrity_append:
  "checkLockfileIntegrity w resp p = resp @ checkLockfileIntegrity w [] p"
  using checkNPMLockfileIntegrity_append [of w resp p] checkGoSumIntegrity_append [of w resp p]
  by (simp add: checkLockfileIntegrity_def Let_def)

lemma other_lockfile_not_artifact:
  "\<not> isReleaseArtifact w ''yarn.lock''"
  "\<not> isReleaseArtifact w ''Gemfile.lock''"
  "\<not> isReleaseArtifact w ''poetry.lock''"
  "\<not> isReleaseArtifact w ''Cargo.lock''"
  "\<not> isReleaseArtifact w ''composer.lock''"
  by (simp_all add: isReleaseArtifact_def ToLower_def isASCII_def lowerASCII_def
      releaseArtifactExtensions_def HasSuffix_def)

section \<open>Lockfiles without a check\<close>

text \<open>
  C10. A file whose base name is \<open>yarn.lock\<close>, \<open>Gemfile.lock\<close>, \<open>poetry.lock\<close>,
  \<open>Cargo.lock\<close> or \<open>composer.lock\<close> produces no finding: the lockfile dispatcher
  returns the response as it got it, and so does the whole loop body of the scan for that
  file, whatever the world and the file index are.
\<close>

theorem other_lockfiles_no_finding:
  assumes "Base path \<in> set [''yarn.lock'', ''Gemfile.lock'', ''poetry.lock'', ''Cargo.lock'', ''composer.lock'']"
  shows "checkLockfileIntegrity w resp path = resp \<and> analyzeFile w files path resp = resp"
proof -
  have a: "\<not> isReleaseArtifact w (Base path)"
    using assms other_lockfile_not_artifact [of w] by auto
  have b: "Base path \<notin> set checksumFileNames"
    using assms by (auto simp: checksumFileNames_def)
  have c: "checkLockfileIntegrity w resp path = resp"
    using assms by (auto simp: checkLockfileIntegrity_def Let_def)
  show ?thesis
    using a b c by (simp add: analyzeFile_def Let_def)
qed

theorem other_lockfiles_no_finding_witness:
  "Base ''ws/yarn.lock'' = ''yarn.lock'' \<and>
   checkLockfileIntegrity exWorld [] ''ws/yarn.lock'' = [] \<and>
   analyzeFile exWorld {''ws/yarn.lock''} ''ws/yarn.lock'' [] = []"
proof -
  have h: "Base ''ws/yarn.lock'' = ''yarn.lock''"
    by (simp add: Base_def)
  have m: "Base ''ws/yarn.lock'' \<in> set [''yarn.lock'', ''Gemfile.lock'', ''poetry.lock'', ''Cargo.lock'', ''composer.lock'']"
    by (simp add: h)
  show ?thesis
    using other_lockfiles_no_finding [OF m, of exWorld "[]" "{''ws/yarn.lock''}"] h by simp
qed

subsection \<open>The loop over a module manifest\<close>

lemma reGoSumLine_nonempty: "reGoSumLine [] = None"
  by (simp add: reGoSumLine_def)








lemma goSumLine_new:
  "snd (goSumLine p n raw (seen, [])) =
     (case reGoSumLine (TrimSpace raw) of
        None \<Rightarrow> []
      | Some (module, ver, hash) \<Rightarrow>
          (case seen (module @ ''@'' @ ver) of
             None \<Rightarrow> []
           | Some existing \<Rightarrow>
               if existing \<noteq> hash then
                 [\<lparr>ruleId = ''ARTINT-003'', severity = SeverityCritical,
                   confidence = ConfidenceHigh,
                   message = ''Duplicate go.sum entry with different hash for '' @
                     module @ ''@'' @ ver,
                   locFile = p, locStart = n, locEnd = n,
                   metadata = [(''module'', module), (''version'', ver),
                               (''type'', ''checksum_mismatch'')]\<rparr>]
               else []))"
  by (simp add: goSumLine_def Let_def reGoSumLine_nonempty Done_def WithMetadata_def At_def
      Finding_def split: option.splits)



lemma filter_none: "(\<And>x. x \<in> set xs \<Longrightarrow> \<not> P x) \<Longrightarrow> filter P xs = []"
  by (induction xs) auto

lemma filter_all: "(\<And>x. x \<in> set xs \<Longrightarrow> P x) \<Longrightarrow> filter P xs = xs"
  by (induction xs) auto




section \<open>Module manifests\<close>




text \<open>
  C9. The table of the module-manifest check is keyed on the string module \<open>@\<close>
  version. The two lines of \<open>exCollision\<close> match the pattern with the pairs
  (\<open>a@b\<close>, \<open>c\<close>) and (\<open>a\<close>, \<open>b@c\<close>), which are different pairs with the one key
  \<open>a@b@c\<close>; no pair occurs twice. The check, and the scan of a workspace that holds this
  file as \<open>go.sum\<close>, emit one ARTINT-003 finding, located at the second line.
\<close>

theorem goSum_key_collision:
  "goSumEntries exCollision = [(''a@b'', ''c'', ''h1:x''), (''a'', ''b@c'', ''h1:y'')] \<and>
   distinct (map (\<lambda>(module, ver, hash). (module, ver)) (goSumEntries exCollision)) \<and>
   map (\<lambda>(module, ver, hash). module @ ''@'' @ ver) (goSumEntries exCollision) =
     [''a@b@c'', ''a@b@c''] \<and>
   checkGoSumIntegrity exCollisionWorld [] ''ws/go.sum'' =
     [\<lparr>ruleId = ''ARTINT-003'', severity = SeverityCritical, confidence = ConfidenceHigh,
       message = ''Duplicate go.sum entry with different hash for a@b@c'',
       locFile = ''ws/go.sum'', locStart = 2, locEnd = 2,
       metadata = [(''module'', ''a''), (''version'', ''b@c''),
                   (''type'', ''checksum_mismatch'')]\<rparr>] \<and>
   handleScan exCollisionWorld None \<lparr>inputRoot = Some ''ws'', WorkspaceRoot = []\<rparr> =
     Inr (checkGoSumIntegrity exCollisionWorld [] ''ws/go.sum'')"
proof -
  have e: "goSumEntries exCollision = [(''a@b'', ''c'', ''h1:x''), (''a'', ''b@c'', ''h1:y'')]"
    by code_simp
  have c: "checkGoSumIntegrity exCollisionWorld [] ''ws/go.sum'' =
     [\<lparr>ruleId = ''ARTINT-003'', severity = SeverityCritical, confidence = ConfidenceHigh,
       message = ''Duplicate go.sum entry with different hash for a@b@c'',
       locFile = ''ws/go.sum'', locStart = 2, locEnd = 2,
       metadata = [(''module'', ''a''), (''version'', ''b@c''),
                   (''type'', ''checksum_mismatch'')]\<rparr>]"
    by code_simp
  have h: "handleScan exCollisionWorld None \<lparr>inputRoot = Some ''ws'', WorkspaceRoot = []\<rparr> =
     Inr (checkGoSumIntegrity exCollisionWorld [] ''ws/go.sum'')"
    by code_simp
  show ?thesis
    by (simp add: e c h)
qed

subsection \<open>The loop over a checksum manifest\<close>

lemma hex_is_ascii: "isHex c \<Longrightarrow> isASCII c"
proof -
  have "list_all isASCII ''0123456789abcdefABCDEF''"
    by (simp add: isASCII_def)
  then show "isHex c \<Longrightarrow> isASCII c"
    unfolding isHex_def list_all_iff by blast
qed

lemma reChecksumLine_Nil: "reChecksumLine [] = None"
  by (simp add: reChecksumLine_def)

lemma hash_not_hex: "\<not> isHex CHR ''#''"
  by (simp add: isHex_def)

lemma reChecksumLine_comment: "HasPrefix line ''#'' \<Longrightarrow> reChecksumLine line = None"
proof -
  assume "HasPrefix line ''#''"
  then obtain rest where l: "line = CHR ''#'' # rest"
    by (cases line) (auto simp: HasPrefix_def)
  have "takeWhile isHex line = []"
    by (simp add: l hash_not_hex)
  then show ?thesis
    by (simp add: reChecksumLine_def Let_def)
qed

lemma reChecksumLine_hex:
  assumes "reChecksumLine line = Some (m1, m2)"
  shows "list_all isHex m1"
proof -
  have "m1 = takeWhile isHex line"
    using assms by (auto simp: reChecksumLine_def Let_def split: if_splits)
  then show ?thesis
    by (auto simp: list_all_iff dest: set_takeWhileD)
qed

lemma ToLower_hex:
  assumes "list_all isHex m1"
  shows "ToLower u m1 = map lowerASCII m1"
proof -
  have "list_all isASCII m1"
    using assms hex_is_ascii by (auto simp: list_all_iff)
  then show ?thesis by (simp add: ToLower_def)
qed


lemma hexDigit_lower: "lowerASCII (hexDigit n) = hexDigit n"
proof -
  have a: "list_all (\<lambda>c. lowerASCII c = c) ''0123456789abcdef''"
    by (simp add: lowerASCII_def)
  have b: "n mod 16 < length ''0123456789abcdef''"
    by simp
  show ?thesis
    unfolding hexDigit_def using a b list_all_length [of "\<lambda>c. lowerASCII c = c" "''0123456789abcdef''"]
    by blast
qed

lemma EncodeToString_lower: "map lowerASCII (EncodeToString h) = EncodeToString h"
  by (simp add: EncodeToString_def hexDigit_lower)


lemma checksumLine_new:
  "checksumLine w p dir n raw [] =
     (case reChecksumLine (TrimSpace raw) of
        None \<Rightarrow> []
      | Some (m1, m2) \<Rightarrow>
          (case ReadFile w (Join dir (TrimPrefix (TrimSpace m2) ''*'')) of
             None \<Rightarrow> []
           | Some data \<Rightarrow>
               if length m1 = 64 \<and>
                  map lowerASCII (EncodeToString (Sum256 w data)) \<noteq> map lowerASCII m1
               then
                 [\<lparr>ruleId = ''ARTINT-003'', severity = SeverityCritical,
                   confidence = ConfidenceHigh,
                   message = ''Checksum mismatch for '' @ TrimPrefix (TrimSpace m2) ''*'' @
                     '': declared='' @ take 16 (map lowerASCII m1) @ ''...'' @
                     '' actual='' @ take 16 (EncodeToString (Sum256 w data)) @ ''...'',
                   locFile = p, locStart = n, locEnd = n,
                   metadata = [(''file'', TrimPrefix (TrimSpace m2) ''*''),
                               (''type'', ''checksum_mismatch'')]\<rparr>]
               else []))"
proof (cases "reChecksumLine (TrimSpace raw)")
  case None
  then show ?thesis
    by (simp add: checksumLine_def Let_def)
next
  case (Some m)
  obtain m1 m2 where m: "m = (m1, m2)" by (cases m)
  have ne: "TrimSpace raw \<noteq> []" "\<not> HasPrefix (TrimSpace raw) ''#''"
    using Some reChecksumLine_Nil reChecksumLine_comment by auto
  have low: "ToLower (ulower w) m1 = map lowerASCII m1"
    using Some m reChecksumLine_hex ToLower_hex by blast
  show ?thesis
  proof (cases "ReadFile w (Join dir (TrimPrefix (TrimSpace m2) ''*''))")
    case None
    then show ?thesis
      using ne by (simp add: checksumLine_def Let_def Some m)
  next
    case (Some data)
    note rd = Some
    show ?thesis
      using ne
      apply (simp only: checksumLine_def Let_def \<open>reChecksumLine (TrimSpace raw) = Some m\<close> m low rd
          EncodeToString_lower option.case prod.case if_False simp_thms)
      apply (simp add: Done_def WithMetadata_def At_def Finding_def del: append.simps)
      done
  qed
qed


lemma checksumLine_locStart:
  "f \<in> set (checksumLine w p dir n raw []) \<Longrightarrow> locStart f = n"
  by (auto simp: checksumLine_new split: option.splits if_splits)

lemma checksumLoop_texts_append:
  "checksumLoop w p dir n (xs @ ys) resp =
     checksumLoop w p dir (n + length xs) ys (checksumLoop w p dir n xs resp)"
  by (induction xs arbitrary: n resp) simp_all

lemma checksumLoop_locStart:
  "f \<in> set (checksumLoop w p dir n texts []) \<Longrightarrow>
     n < locStart f \<and> locStart f \<le> n + length texts"
proof (induction texts arbitrary: n)
  case Nil
  then show ?case by simp
next
  case (Cons raw texts)
  have "checksumLoop w p dir n (raw # texts) [] =
          checksumLine w p dir (Suc n) raw [] @ checksumLoop w p dir (Suc n) texts []"
    using checksumLoop_append [of w p dir "Suc n" texts "checksumLine w p dir (Suc n) raw []"]
    by simp
  then have "f \<in> set (checksumLine w p dir (Suc n) raw []) \<or>
             f \<in> set (checksumLoop w p dir (Suc n) texts [])"
    using Cons.prems by auto
  then show ?case
  proof
    assume "f \<in> set (checksumLine w p dir (Suc n) raw [])"
    then have "locStart f = Suc n" by (rule checksumLine_locStart)
    then show ?thesis by simp
  next
    assume "f \<in> set (checksumLoop w p dir (Suc n) texts [])"
    then show ?thesis using Cons.IH [of "Suc n"] by auto
  qed
qed

lemma checksumLoop_split:
  assumes "i < length texts"
  shows "checksumLoop w p dir 0 texts resp =
           checksumLoop w p dir (Suc i) (drop (Suc i) texts)
             (checksumLine w p dir (Suc i) (texts ! i) (checksumLoop w p dir 0 (take i texts) resp))"
proof -
  have t: "texts = take i texts @ texts ! i # drop (Suc i) texts"
    using assms by (simp add: id_take_nth_drop)
  have len: "length (take i texts) = i"
    using assms by simp
  show ?thesis
    using checksumLoop_texts_append [of w p dir 0 "take i texts" "texts ! i # drop (Suc i) texts" resp]
      t len by simp
qed

lemma checksumLoop_parts:
  assumes "i < length texts"
  shows "checksumLoop w p dir 0 texts [] =
           checksumLoop w p dir 0 (take i texts) [] @
           checksumLine w p dir (Suc i) (texts ! i) [] @
           checksumLoop w p dir (Suc i) (drop (Suc i) texts) []"
  using checksumLoop_split [OF assms, of w p dir "[]"]
    checksumLoop_append [of w p dir "Suc i" "drop (Suc i) texts"
      "checksumLine w p dir (Suc i) (texts ! i) (checksumLoop w p dir 0 (take i texts) [])"]
    checksumLine_append [of w p dir "Suc i" "texts ! i" "checksumLoop w p dir 0 (take i texts) []"]
  by simp

lemma checksum_filter_line:
  assumes "i < length texts"
  shows "filter (\<lambda>f. locStart f = Suc i) (checksumLoop w p dir 0 texts []) =
           checksumLine w p dir (Suc i) (texts ! i) []"
proof -
  have a: "filter (\<lambda>f. locStart f = Suc i) (checksumLoop w p dir 0 (take i texts) []) = []"
  proof (rule filter_none)
    fix x assume "x \<in> set (checksumLoop w p dir 0 (take i texts) [])"
    then have "locStart x \<le> 0 + length (take i texts)"
      using checksumLoop_locStart by blast
    then show "\<not> locStart x = Suc i" by simp
  qed
  have b: "filter (\<lambda>f. locStart f = Suc i) (checksumLine w p dir (Suc i) (texts ! i) []) =
           checksumLine w p dir (Suc i) (texts ! i) []"
    by (rule filter_all) (rule checksumLine_locStart)
  have c: "filter (\<lambda>f. locStart f = Suc i)
             (checksumLoop w p dir (Suc i) (drop (Suc i) texts) []) = []"
  proof (rule filter_none)
    fix x assume "x \<in> set (checksumLoop w p dir (Suc i) (drop (Suc i) texts) [])"
    then have "Suc i < locStart x"
      using checksumLoop_locStart by blast
    then show "\<not> locStart x = Suc i" by simp
  qed
  show ?thesis
    by (simp add: checksumLoop_parts [OF assms] a b c)
qed

section \<open>Checksum manifests\<close>

text \<open>
  C1. In a checksum manifest, take the line number \<open>i + 1\<close> and suppose that, trimmed, it
  matches the pattern of 32 to 128 hexadecimal characters, white space and a file name.
  Then exactly one finding is located at that line (rule ARTINT-003, severity Critical,
  confidence High, type \<open>checksum_mismatch\<close>, in the manifest file) if the declared hash
  has 64 characters, the referenced file, with a leading \<open>*\<close> stripped and resolved in
  the directory of the manifest, can be read, and the SHA-256 digest of its content,
  written in hexadecimal, differs from the declared hash when letter case is ignored.
  In every other case no finding is located at that line; in particular a declared hash
  of another length is never verified.
\<close>

theorem checksum_mismatch_iff:
  assumes "OpenLines w checksumFilePath = Some texts"
    and "i < length texts"
    and "reChecksumLine (TrimSpace (texts ! i)) = Some (declared, refName)"
  shows "\<exists>new. checkChecksumMismatches w resp checksumFilePath dir = resp @ new \<and>
     (if length declared = 64 \<and>
         (\<exists>data. ReadFile w (Join dir (TrimPrefix (TrimSpace refName) ''*'')) = Some data \<and>
            map lowerASCII (EncodeToString (Sum256 w data)) \<noteq> map lowerASCII declared)
      then (\<exists>f. filter (\<lambda>f. locStart f = Suc i) new = [f] \<and>
              ruleId f = ''ARTINT-003'' \<and> severity f = SeverityCritical \<and>
              confidence f = ConfidenceHigh \<and>
              map_of (metadata f) ''type'' = Some ''checksum_mismatch'' \<and>
              locFile f = checksumFilePath \<and> locStart f = Suc i \<and> locEnd f = Suc i)
      else filter (\<lambda>f. locStart f = Suc i) new = [])"
proof -
  let ?new = "checksumLoop w checksumFilePath dir 0 texts []"
  have r: "checkChecksumMismatches w resp checksumFilePath dir = resp @ ?new"
    using assms(1) checksumLoop_append [of w checksumFilePath dir 0 texts resp]
    by (simp add: checkChecksumMismatches_def)
  have f: "filter (\<lambda>f. locStart f = Suc i) ?new =
             checksumLine w checksumFilePath dir (Suc i) (texts ! i) []"
    using assms(2) by (rule checksum_filter_line)
  show ?thesis
    apply (rule exI [of _ ?new])
    apply (simp only: r f checksumLine_new assms(3))
    apply (cases "ReadFile w (Join dir (TrimPrefix (TrimSpace refName) ''*''))")
     apply simp_all
    done
qed

theorem checksum_mismatch_iff_witness:
  "OpenLines exWorld ''ws/release/SHA256SUMS'' = Some exManifest \<and>
   reChecksumLine (TrimSpace (exManifest ! 2)) = Some (replicate 64 CHR ''1'', ''*app.tar.gz'') \<and>
   reChecksumLine (TrimSpace (exManifest ! 4)) = Some (replicate 32 CHR ''1'', ''app.tar.gz'') \<and>
   (\<exists>new f. checkChecksumMismatches exWorld [] ''ws/release/SHA256SUMS'' ''ws/release'' = new \<and>
      filter (\<lambda>f. locStart f = 3) new = [f] \<and> ruleId f = ''ARTINT-003'' \<and>
      severity f = SeverityCritical \<and> confidence f = ConfidenceHigh \<and>
      locFile f = ''ws/release/SHA256SUMS'' \<and>
      filter (\<lambda>f. locStart f = 5) new = [])"
proof -
  have h1: "OpenLines exWorld ''ws/release/SHA256SUMS'' = Some exManifest"
    by (simp add: exWorld_def)
  have h2: "2 < length exManifest" "4 < length exManifest"
    by (simp_all add: exManifest_def)
  have h3: "reChecksumLine (TrimSpace (exManifest ! 2)) = Some (replicate 64 CHR ''1'', ''*app.tar.gz'')"
    by code_simp
  have h5: "reChecksumLine (TrimSpace (exManifest ! 4)) = Some (replicate 32 CHR ''1'', ''app.tar.gz'')"
    by code_simp
  have rd: "ReadFile exWorld (Join ''ws/release'' (TrimPrefix (TrimSpace ''*app.tar.gz'') ''*'')) =
              Some ''binary content''"
    by code_simp
  have ne: "map lowerASCII (EncodeToString (Sum256 exWorld ''binary content'')) \<noteq>
              map lowerASCII (replicate 64 CHR ''1'')"
    by code_simp
  have c: "length (replicate 64 CHR ''1'') = 64 \<and>
     (\<exists>data. ReadFile exWorld (Join ''ws/release'' (TrimPrefix (TrimSpace ''*app.tar.gz'') ''*'')) = Some data \<and>
        map lowerASCII (EncodeToString (Sum256 exWorld data)) \<noteq> map lowerASCII (replicate 64 CHR ''1''))"
    using rd ne by simp
  have n: "\<not> (length (replicate 32 CHR ''1'') = 64 \<and>
     (\<exists>data. ReadFile exWorld (Join ''ws/release'' (TrimPrefix (TrimSpace ''app.tar.gz'') ''*'')) = Some data \<and>
        map lowerASCII (EncodeToString (Sum256 exWorld data)) \<noteq> map lowerASCII (replicate 32 CHR ''1'')))"
    by simp
  obtain new f where a: "checkChecksumMismatches exWorld [] ''ws/release/SHA256SUMS'' ''ws/release'' = new"
      "filter (\<lambda>f. locStart f = 3) new = [f]" "ruleId f = ''ARTINT-003''"
      "severity f = SeverityCritical" "confidence f = ConfidenceHigh"
      "locFile f = ''ws/release/SHA256SUMS''"
    using checksum_mismatch_iff [OF h1 h2(1) h3, of "[]" "''ws/release''"] c
    by (auto simp: numeral_3_eq_3)
  have b: "filter (\<lambda>f. locStart f = 5) new = []"
    using checksum_mismatch_iff [OF h1 h2(2) h5, of "[]" "''ws/release''"] n a(1)
    by (auto simp: eval_nat_numeral)
  show ?thesis
    using h1 h3 h5 a b by blast
qed

text \<open>
  C6. If the file referenced by a manifest line cannot be read, the line adds nothing to
  the response: the run is the run over the lines before it followed by the run over the
  lines after it, which keep their line numbers, and no finding is located at the line.
\<close>

theorem unreadable_reference_skipped:
  assumes "OpenLines w checksumFilePath = Some texts"
    and "i < length texts"
    and "reChecksumLine (TrimSpace (texts ! i)) = Some (declared, refName)"
    and "ReadFile w (Join dir (TrimPrefix (TrimSpace refName) ''*'')) = None"
  shows "checkChecksumMismatches w resp checksumFilePath dir =
           checksumLoop w checksumFilePath dir (Suc i) (drop (Suc i) texts)
             (checksumLoop w checksumFilePath dir 0 (take i texts) resp) \<and>
         (\<exists>new. checkChecksumMismatches w resp checksumFilePath dir = resp @ new \<and>
            filter (\<lambda>f. locStart f = Suc i) new = [])"
proof -
  let ?new = "checksumLoop w checksumFilePath dir 0 texts []"
  have l: "checksumLine w checksumFilePath dir (Suc i) (texts ! i) [] = []"
    by (simp add: checksumLine_new assms(3) assms(4))
  have l': "checksumLine w checksumFilePath dir (Suc i) (texts ! i) r = r" for r
    using checksumLine_append [of w checksumFilePath dir "Suc i" "texts ! i" r] l by simp
  have a: "checkChecksumMismatches w resp checksumFilePath dir =
           checksumLoop w checksumFilePath dir (Suc i) (drop (Suc i) texts)
             (checksumLoop w checksumFilePath dir 0 (take i texts) resp)"
    using assms(1) checksumLoop_split [OF assms(2), of w checksumFilePath dir resp]
    by (simp add: checkChecksumMismatches_def l')
  have r: "checkChecksumMismatches w resp checksumFilePath dir = resp @ ?new"
    using assms(1) checksumLoop_append [of w checksumFilePath dir 0 texts resp]
    by (simp add: checkChecksumMismatches_def)
  have f: "filter (\<lambda>f. locStart f = Suc i) ?new = []"
    using checksum_filter_line [OF assms(2), of w checksumFilePath dir] l by simp
  show ?thesis
    using a r f by blast
qed


theorem unreadable_reference_skipped_witness:
  "OpenLines exWorld ''ws/release/SHA256SUMS'' = Some exManifest \<and>
   reChecksumLine (TrimSpace (exManifest ! 3)) = Some (replicate 64 CHR ''1'', ''missing.tar.gz'') \<and>
   ReadFile exWorld (Join ''ws/release'' (TrimPrefix (TrimSpace ''missing.tar.gz'') ''*'')) = None \<and>
   checkChecksumMismatches exWorld [] ''ws/release/SHA256SUMS'' ''ws/release'' =
     checksumLoop exWorld ''ws/release/SHA256SUMS'' ''ws/release'' 4 (drop 4 exManifest)
       (checksumLoop exWorld ''ws/release/SHA256SUMS'' ''ws/release'' 0 (take 3 exManifest) []) \<and>
   filter (\<lambda>f. locStart f = 4)
     (checkChecksumMismatches exWorld [] ''ws/release/SHA256SUMS'' ''ws/release'') = []"
proof -
  have h1: "OpenLines exWorld ''ws/release/SHA256SUMS'' = Some exManifest"
    by (simp add: exWorld_def)
  have h2: "3 < length exManifest"
    by (simp add: exManifest_def)
  have h3: "reChecksumLine (TrimSpace (exManifest ! 3)) = Some (replicate 64 CHR ''1'', ''missing.tar.gz'')"
    by code_simp
  have h4: "ReadFile exWorld (Join ''ws/release'' (TrimPrefix (TrimSpace ''missing.tar.gz'') ''*'')) = None"
    by code_simp
  show ?thesis
    using unreadable_reference_skipped [OF h1 h2 h3 h4, of "[]"] h1 h3 h4
    by (auto simp: eval_nat_numeral)
qed

subsection \<open>The loop over the package table\<close>

lemma npmLoop_new:
  "npmLoop p packages [] =
     map (\<lambda>(pkgPath, pkg).
            \<lparr>ruleId = ''ARTINT-003'', severity = SeverityCritical, confidence = ConfidenceHigh,
             message = ''Lockfile entry missing integrity hash: '' @ pkgPath @ ''@'' @ Version pkg,
             locFile = p, locStart = 0, locEnd = 0,
             metadata = [(''package'', pkgPath), (''version'', Version pkg),
                         (''type'', ''missing_integrity'')]\<rparr>)
       (filter (\<lambda>(pkgPath, pkg). pkgPath \<noteq> [] \<and> Integrity pkg = [] \<and> Resolved pkg \<noteq> [])
          packages)"
proof (induction packages)
  case Nil
  show ?case by simp
next
  case (Cons e packages)
  obtain k pkg where e: "e = (k, pkg)" by (cases e)
  show ?case
    using Cons.IH npmLoop_append [of p packages "Done [] _"]
    by (simp add: e Done_def WithMetadata_def At_def Finding_def)
qed

lemma npm_filter_key:
  assumes "distinct (map fst packages)" and "(k, pkg) \<in> set packages"
  shows "filter (\<lambda>f. map_of (metadata f) ''package'' = Some k) (npmLoop p packages []) =
           (if k \<noteq> [] \<and> Integrity pkg = [] \<and> Resolved pkg \<noteq> [] then
              [\<lparr>ruleId = ''ARTINT-003'', severity = SeverityCritical, confidence = ConfidenceHigh,
                message = ''Lockfile entry missing integrity hash: '' @ k @ ''@'' @ Version pkg,
                locFile = p, locStart = 0, locEnd = 0,
                metadata = [(''package'', k), (''version'', Version pkg),
                            (''type'', ''missing_integrity'')]\<rparr>]
            else [])"
  using assms
proof (induction packages)
  case Nil
  then show ?case by simp
next
  case (Cons e packages)
  obtain k' pkg' where e: "e = (k', pkg')" by (cases e)
  have step: "npmLoop p (e # packages) [] = npmLoop p [e] [] @ npmLoop p packages []"
    by (simp add: npmLoop_new e)
  show ?case
  proof (cases "(k, pkg) = e")
    case True
    then have "\<And>b. (k, b) \<notin> set packages"
      using Cons.prems(1) by (auto simp: image_iff)
    then have "filter (\<lambda>f. map_of (metadata f) ''package'' = Some k) (npmLoop p packages []) = []"
      by (auto simp: npmLoop_new filter_empty_conv)
    then show ?thesis
      using True by (simp add: step) (simp add: npmLoop_new e)
  next
    case False
    then have m: "(k, pkg) \<in> set packages"
      using Cons.prems(2) by simp
    then have "k \<noteq> k'"
      using Cons.prems(1) e by (auto simp: image_iff)
    then have "filter (\<lambda>f. map_of (metadata f) ''package'' = Some k) (npmLoop p [e] []) = []"
      by (simp add: npmLoop_new e)
    then show ?thesis
      using Cons.IH [OF _ m] Cons.prems(1) by (simp add: step)
  qed
qed


lemma handled_lockfile_not_artifact:
  "\<not> isReleaseArtifact w ''package-lock.json''"
  "\<not> isReleaseArtifact w ''go.sum''"
  by (simp_all add: isReleaseArtifact_def ToLower_def isASCII_def lowerASCII_def
      releaseArtifactExtensions_def HasSuffix_def)

lemma analyzeFile_package_lock:
  assumes "Base path = ''package-lock.json''"
  shows "analyzeFile w files path resp = checkNPMLockfileIntegrity w resp path"
  using handled_lockfile_not_artifact(1) [of w]
  by (simp add: analyzeFile_def Let_def assms checksumFileNames_def lockfileNames_def
      checkLockfileIntegrity_def)

section \<open>The npm lockfile\<close>

text \<open>
  C4. For a \<open>package-lock.json\<close> that can be read: if it parses, then for every entry of
  its package table (whose keys are distinct) exactly one finding carries the package
  path of the entry when the key is not empty, the resolved URL is not empty and the
  integrity string is empty; the finding has rule ARTINT-003, severity Critical,
  confidence High, type \<open>missing_integrity\<close> and the version of the entry. For every
  other entry, so for one with an integrity string and for the root entry with the empty
  key, no finding carries its package path. If the document does not parse, the check
  leaves the response as it was, and the loop of the scan goes on with the next file.
\<close>

theorem npm_lockfile_integrity:
  assumes "ReadFile w filePath = Some data"
  shows "(Unmarshal w data = None \<longrightarrow>
            checkNPMLockfileIntegrity w resp filePath = resp \<and>
            (Base filePath = ''package-lock.json'' \<and> ctxErr ctx n = None \<longrightarrow>
               analyzeLoop w ctx files n (filePath # paths) resp =
                 analyzeLoop w ctx files (Suc n) paths resp)) \<and>
         (\<forall>packages. Unmarshal w data = Some packages \<and> distinct (map fst packages) \<longrightarrow>
            (\<exists>new. checkNPMLockfileIntegrity w resp filePath = resp @ new \<and>
               (\<forall>(k, pkg) \<in> set packages.
                  if k \<noteq> [] \<and> Resolved pkg \<noteq> [] \<and> Integrity pkg = []
                  then (\<exists>f. filter (\<lambda>f. map_of (metadata f) ''package'' = Some k) new = [f] \<and>
                          ruleId f = ''ARTINT-003'' \<and> severity f = SeverityCritical \<and>
                          confidence f = ConfidenceHigh \<and>
                          map_of (metadata f) ''type'' = Some ''missing_integrity'' \<and>
                          map_of (metadata f) ''version'' = Some (Version pkg) \<and>
                          locFile f = filePath)
                  else filter (\<lambda>f. map_of (metadata f) ''package'' = Some k) new = [])))"
proof (intro conjI impI allI)
  assume u: "Unmarshal w data = None"
  show "checkNPMLockfileIntegrity w resp filePath = resp"
    by (simp add: checkNPMLockfileIntegrity_def assms u)
next
  assume u: "Unmarshal w data = None"
    and b: "Base filePath = ''package-lock.json'' \<and> ctxErr ctx n = None"
  have "analyzeFile w files filePath resp = resp"
    using b by (simp add: analyzeFile_package_lock checkNPMLockfileIntegrity_def assms u)
  then show "analyzeLoop w ctx files n (filePath # paths) resp =
               analyzeLoop w ctx files (Suc n) paths resp"
    using b by simp
next
  fix packages
  assume u: "Unmarshal w data = Some packages \<and> distinct (map fst packages)"
  let ?new = "npmLoop filePath packages []"
  have r: "checkNPMLockfileIntegrity w resp filePath = resp @ ?new"
    using npmLoop_append [of filePath packages resp]
    by (simp add: checkNPMLockfileIntegrity_def assms u)
  have "\<forall>(k, pkg) \<in> set packages.
          if k \<noteq> [] \<and> Resolved pkg \<noteq> [] \<and> Integrity pkg = []
          then (\<exists>f. filter (\<lambda>f. map_of (metadata f) ''package'' = Some k) ?new = [f] \<and>
                  ruleId f = ''ARTINT-003'' \<and> severity f = SeverityCritical \<and>
                  confidence f = ConfidenceHigh \<and>
                  map_of (metadata f) ''type'' = Some ''missing_integrity'' \<and>
                  map_of (metadata f) ''version'' = Some (Version pkg) \<and>
                  locFile f = filePath)
          else filter (\<lambda>f. map_of (metadata f) ''package'' = Some k) ?new = []"
  proof (clarify)
    fix k pkg assume m: "(k, pkg) \<in> set packages"
    have d: "distinct (map fst packages)" using u by simp
    show "if k \<noteq> [] \<and> Resolved pkg \<noteq> [] \<and> Integrity pkg = []
          then (\<exists>f. filter (\<lambda>f. map_of (metadata f) ''package'' = Some k) ?new = [f] \<and>
                  ruleId f = ''ARTINT-003'' \<and> severity f = SeverityCritical \<and>
                  confidence f = ConfidenceHigh \<and>
                  map_of (metadata f) ''type'' = Some ''missing_integrity'' \<and>
                  map_of (metadata f) ''version'' = Some (Version pkg) \<and>
                  locFile f = filePath)
          else filter (\<lambda>f. map_of (metadata f) ''package'' = Some k) ?new = []"
      by (simp only: npm_filter_key [OF d m]) auto
  qed
  then show "\<exists>new. checkNPMLockfileIntegrity w resp filePath = resp @ new \<and>
               (\<forall>(k, pkg) \<in> set packages.
                  if k \<noteq> [] \<and> Resolved pkg \<noteq> [] \<and> Integrity pkg = []
                  then (\<exists>f. filter (\<lambda>f. map_of (metadata f) ''package'' = Some k) new = [f] \<and>
                          ruleId f = ''ARTINT-003'' \<and> severity f = SeverityCritical \<and>
                          confidence f = ConfidenceHigh \<and>
                          map_of (metadata f) ''type'' = Some ''missing_integrity'' \<and>
                          map_of (metadata f) ''version'' = Some (Version pkg) \<and>
                          locFile f = filePath)
                  else filter (\<lambda>f. map_of (metadata f) ''package'' = Some k) new = [])"
    using r by blast
qed


theorem npm_lockfile_integrity_witness:
  "ReadFile exWorld ''ws/package-lock.json'' = Some ''{ }'' \<and>
   Unmarshal exWorld ''{ }'' = Some exPackages \<and> distinct (map fst exPackages) \<and>
   (\<exists>new f. checkNPMLockfileIntegrity exWorld [] ''ws/package-lock.json'' = new \<and>
      filter (\<lambda>f. map_of (metadata f) ''package'' = Some ''node_modules/lodash'') new = [f] \<and>
      ruleId f = ''ARTINT-003'' \<and> severity f = SeverityCritical \<and>
      map_of (metadata f) ''type'' = Some ''missing_integrity'' \<and>
      map_of (metadata f) ''version'' = Some ''4.17.21'' \<and>
      filter (\<lambda>f. map_of (metadata f) ''package'' = Some []) new = [] \<and>
      filter (\<lambda>f. map_of (metadata f) ''package'' = Some ''node_modules/safe'') new = []) \<and>
   ReadFile exWorld ''ws/dist/package-lock.json'' = Some ''{'' \<and>
   Unmarshal exWorld ''{'' = None \<and>
   checkNPMLockfileIntegrity exWorld [] ''ws/dist/package-lock.json'' = [] \<and>
   analyzeLoop exWorld None {} 0 [''ws/dist/package-lock.json'', ''ws/yarn.lock''] [] =
     analyzeLoop exWorld None {} (Suc 0) [''ws/yarn.lock''] []"
proof -
  have h1: "ReadFile exWorld ''ws/package-lock.json'' = Some ''{ }''"
    by (simp add: exWorld_def)
  have h2: "Unmarshal exWorld ''{ }'' = Some exPackages \<and> distinct (map fst exPackages)"
    by (simp add: exWorld_def exPackages_def)
  have g1: "ReadFile exWorld ''ws/dist/package-lock.json'' = Some ''{''"
    by (simp add: exWorld_def)
  have g2: "Unmarshal exWorld ''{'' = None"
    by (simp add: exWorld_def)
  have g3: "Base ''ws/dist/package-lock.json'' = ''package-lock.json'' \<and> ctxErr None 0 = None"
    by (simp add: Base_def ctxErr_def)
  obtain new where n: "checkNPMLockfileIntegrity exWorld [] ''ws/package-lock.json'' = new"
    and a: "\<forall>(k, pkg) \<in> set exPackages.
              if k \<noteq> [] \<and> Resolved pkg \<noteq> [] \<and> Integrity pkg = []
              then (\<exists>f. filter (\<lambda>f. map_of (metadata f) ''package'' = Some k) new = [f] \<and>
                      ruleId f = ''ARTINT-003'' \<and> severity f = SeverityCritical \<and>
                      confidence f = ConfidenceHigh \<and>
                      map_of (metadata f) ''type'' = Some ''missing_integrity'' \<and>
                      map_of (metadata f) ''version'' = Some (Version pkg) \<and>
                      locFile f = ''ws/package-lock.json'')
              else filter (\<lambda>f. map_of (metadata f) ''package'' = Some k) new = []"
    using npm_lockfile_integrity [OF h1, of "[]"] h2 by auto
  have b: "checkNPMLockfileIntegrity exWorld [] ''ws/dist/package-lock.json'' = [] \<and>
     analyzeLoop exWorld None {} 0 [''ws/dist/package-lock.json'', ''ws/yarn.lock''] [] =
       analyzeLoop exWorld None {} (Suc 0) [''ws/yarn.lock''] []"
    using npm_lockfile_integrity [OF g1, of "[]" None 0 "{}" "[''ws/yarn.lock'']"] g2 g3 by blast
  have c: "filter (\<lambda>f. map_of (metadata f) ''package'' = Some []) new = [] \<and>
      (\<exists>f. filter (\<lambda>f. map_of (metadata f) ''package'' = Some ''node_modules/lodash'') new = [f] \<and>
           ruleId f = ''ARTINT-003'' \<and> severity f = SeverityCritical \<and>
           confidence f = ConfidenceHigh \<and>
           map_of (metadata f) ''type'' = Some ''missing_integrity'' \<and>
           map_of (metadata f) ''version'' = Some ''4.17.21'' \<and>
           locFile f = ''ws/package-lock.json'') \<and>
      filter (\<lambda>f. map_of (metadata f) ''package'' = Some ''node_modules/safe'') new = []"
    using a unfolding exPackages_def by simp
  show ?thesis
    using h1 h2 g1 g2 n b c by blast
qed

subsection \<open>The walk and the loop over the index\<close>

lemma analyzeFile_general:
  "analyzeFile w files p resp =
     resp @
     (if isReleaseArtifact w (Base p)
      then checkMissingChecksum [] p (Base p) (Dir p) files @
           checkUnsignedArtifact [] p (Base p) (Dir p) files
      else []) @
     (if Base p \<in> set checksumFileNames then checkChecksumMismatches w [] p (Dir p) else []) @
     (if Base p \<in> set lockfileNames then checkLockfileIntegrity w [] p else [])"
proof -
  define r1 where "r1 =
    (if isReleaseArtifact w (Base p) then
       checkUnsignedArtifact (checkMissingChecksum resp p (Base p) (Dir p) files)
         p (Base p) (Dir p) files
     else resp)"
  define r2 where "r2 =
    (if Base p \<in> set checksumFileNames then checkChecksumMismatches w r1 p (Dir p) else r1)"
  define r3 where "r3 =
    (if Base p \<in> set lockfileNames then checkLockfileIntegrity w r2 p else r2)"
  have a: "analyzeFile w files p resp = r3"
    by (simp add: analyzeFile_def Let_def r1_def r2_def r3_def)
  have e1: "r1 = resp @
     (if isReleaseArtifact w (Base p)
      then checkMissingChecksum [] p (Base p) (Dir p) files @
           checkUnsignedArtifact [] p (Base p) (Dir p) files
      else [])"
    unfolding r1_def
    using checkMissingChecksum_append [of resp p "Base p" "Dir p" files]
      checkUnsignedArtifact_append [of "checkMissingChecksum resp p (Base p) (Dir p) files" p "Base p" "Dir p" files]
    by simp
  have e2: "r2 = r1 @
     (if Base p \<in> set checksumFileNames then checkChecksumMismatches w [] p (Dir p) else [])"
    unfolding r2_def
    using checkChecksumMismatches_append [of w r1 p "Dir p"] by simp
  have e3: "r3 = r2 @
     (if Base p \<in> set lockfileNames then checkLockfileIntegrity w [] p else [])"
    unfolding r3_def
    using checkLockfileIntegrity_append [of w r2 p] by simp
  show ?thesis
    by (simp only: a e3 e2 e1 append_assoc)
qed

lemma analyzeFile_parts:
  "analyzeFile w files p [] =
     (if isReleaseArtifact w (Base p)
      then checkMissingChecksum [] p (Base p) (Dir p) files @
           checkUnsignedArtifact [] p (Base p) (Dir p) files
      else []) @
     (if Base p \<in> set checksumFileNames then checkChecksumMismatches w [] p (Dir p) else []) @
     (if Base p \<in> set lockfileNames then checkLockfileIntegrity w [] p else [])"
  using analyzeFile_general [of w files p "[]"] by (simp only: append_Nil)

lemma analyzeFile_append:
  "analyzeFile w files p resp = resp @ analyzeFile w files p []"
  by (simp only: analyzeFile_general [of w files p resp] analyzeFile_parts)

lemma ctxErr_analyzed_Nil: "ctxErr ctx n = Some e \<Longrightarrow> analyzed ctx n paths = []"
  by (auto simp: ctxErr_def analyzed_def split: option.splits if_splits)

lemma ctxErr_analyzed_Cons:
  "ctxErr ctx n = None \<Longrightarrow> analyzed ctx n (p # paths) = p # analyzed ctx (Suc n) paths"
proof (cases ctx)
  case None
  then show ?thesis by (simp add: analyzed_def)
next
  case (Some ke)
  obtain k e where ke: "ke = (k, e)" by (cases ke)
  assume "ctxErr ctx n = None"
  then have "n < k"
    using Some ke by (simp add: ctxErr_def split: if_splits)
  then obtain d where "k - n = Suc d" "k - Suc n = d"
    by (cases "k - n") auto
  then show ?thesis
    by (simp add: analyzed_def Some ke)
qed

lemma analyzeLoop_concat:
  "analyzeLoop w ctx files n paths resp =
     resp @ concat (map (\<lambda>p. analyzeFile w files p []) (analyzed ctx n paths))"
proof (induction paths arbitrary: n resp)
  case Nil
  show ?case by (simp add: analyzed_def split: option.splits)
next
  case (Cons p paths)
  show ?case
  proof (cases "ctxErr ctx n")
    case None
    show ?thesis
      using Cons.IH [of "Suc n" "analyzeFile w files p resp"] analyzeFile_append [of w files p resp]
      by (simp add: None ctxErr_analyzed_Cons)
  next
    case (Some e)
    then show ?thesis
      by (simp add: ctxErr_analyzed_Nil)
  qed
qed

lemma checksumLoop_rule:
  "f \<in> set (checksumLoop w p dir n texts []) \<Longrightarrow> ruleId f = ''ARTINT-003''"
proof (induction texts arbitrary: n)
  case Nil
  then show ?case by simp
next
  case (Cons raw texts)
  have "checksumLoop w p dir n (raw # texts) [] =
          checksumLine w p dir (Suc n) raw [] @ checksumLoop w p dir (Suc n) texts []"
    using checksumLoop_append [of w p dir "Suc n" texts "checksumLine w p dir (Suc n) raw []"]
    by simp
  then have "f \<in> set (checksumLine w p dir (Suc n) raw []) \<or>
             f \<in> set (checksumLoop w p dir (Suc n) texts [])"
    using Cons.prems by auto
  then show ?case
  proof
    assume "f \<in> set (checksumLine w p dir (Suc n) raw [])"
    then show ?thesis
      by (auto simp: checksumLine_new split: option.splits if_splits)
  next
    assume "f \<in> set (checksumLoop w p dir (Suc n) texts [])"
    then show ?thesis by (rule Cons.IH)
  qed
qed

lemma goSumLoop_rule:
  "f \<in> set (snd (goSumLoop p n texts (seen, []))) \<Longrightarrow> ruleId f = ''ARTINT-003''"
proof (induction texts arbitrary: n seen)
  case Nil
  then show ?case by simp
next
  case (Cons raw texts)
  obtain seen1 new1 where g: "goSumLine p (Suc n) raw (seen, []) = (seen1, new1)"
    by (cases "goSumLine p (Suc n) raw (seen, [])")
  have "goSumLoop p n (raw # texts) (seen, []) =
          (fst (goSumLoop p (Suc n) texts (seen1, [])),
           new1 @ snd (goSumLoop p (Suc n) texts (seen1, [])))"
    using goSumLoop_append [of p "Suc n" texts seen1 new1] by (simp add: g)
  then have "f \<in> set new1 \<or> f \<in> set (snd (goSumLoop p (Suc n) texts (seen1, [])))"
    using Cons.prems by auto
  then show ?case
  proof
    assume "f \<in> set new1"
    then have "f \<in> set (snd (goSumLine p (Suc n) raw (seen, [])))"
      by (simp add: g)
    then show ?thesis
      by (auto simp: goSumLine_new split: option.splits if_splits)
  next
    assume "f \<in> set (snd (goSumLoop p (Suc n) texts (seen1, [])))"
    then show ?thesis by (rule Cons.IH)
  qed
qed

lemma checkChecksumMismatches_rule:
  "f \<in> set (checkChecksumMismatches w [] p dir) \<Longrightarrow> ruleId f = ''ARTINT-003''"
  by (auto simp: checkChecksumMismatches_def split: option.splits dest: checksumLoop_rule)

lemma checkLockfileIntegrity_rule:
  "f \<in> set (checkLockfileIntegrity w [] p) \<Longrightarrow> ruleId f = ''ARTINT-003''"
  by (auto simp: checkLockfileIntegrity_def Let_def checkNPMLockfileIntegrity_def
      checkGoSumIntegrity_def npmLoop_new split: option.splits if_splits dest: goSumLoop_rule)

lemma hasCompanionFile_iff:
  "hasCompanionFile name dir files exts = (\<exists>ext\<in>set exts. Join dir (name @ ext) \<in> files)"
  by (induction exts) auto

lemma hasBulkChecksumFile_iff:
  "hasBulkChecksumFile dir files names = (\<exists>csName\<in>set names. Join dir csName \<in> files)"
  by (induction names) auto

lemma isReleaseArtifactLoop_iff:
  "isReleaseArtifactLoop lower exts = (\<exists>ext\<in>set exts. HasSuffix lower ext)"
  by (induction exts) auto

lemma checkMissingChecksum_new:
  "checkMissingChecksum [] path name dir files =
     (if (\<exists>ext\<in>set checksumExtensions. Join dir (name @ ext) \<in> files) \<or>
         (\<exists>csName\<in>set checksumFileNames. Join dir csName \<in> files)
      then []
      else [\<lparr>ruleId = ''ARTINT-001'', severity = SeverityHigh, confidence = ConfidenceHigh,
             message = ''Release artifact '' @ name @ '' has no corresponding checksum file'',
             locFile = path, locStart = 0, locEnd = 0,
             metadata = [(''artifact'', name), (''type'', ''missing_checksum'')]\<rparr>])"
  by (simp add: checkMissingChecksum_def hasCompanionFile_iff hasBulkChecksumFile_iff
      Done_def WithMetadata_def At_def Finding_def)

lemma checkUnsignedArtifact_new:
  "checkUnsignedArtifact [] path name dir files =
     (if (\<exists>ext\<in>set signatureExtensions. Join dir (name @ ext) \<in> files)
      then []
      else [\<lparr>ruleId = ''ARTINT-002'', severity = SeverityMedium, confidence = ConfidenceMedium,
             message = ''Release artifact '' @ name @ '' has no signature file (.sig, .asc)'',
             locFile = path, locStart = 0, locEnd = 0,
             metadata = [(''artifact'', name), (''type'', ''unsigned_artifact'')]\<rparr>])"
  by (simp add: checkUnsignedArtifact_def hasCompanionFile_iff
      Done_def WithMetadata_def At_def Finding_def)

lemma analyzeFile_rule1:
  "filter (\<lambda>f. ruleId f = ''ARTINT-001'' \<and> locFile f = path) (analyzeFile w files p []) =
     (if p = path \<and> isReleaseArtifact w (Base p)
      then checkMissingChecksum [] p (Base p) (Dir p) files else [])"
proof -
  have a: "filter (\<lambda>f. ruleId f = ''ARTINT-001'' \<and> locFile f = path)
             (checkMissingChecksum [] q (Base q) (Dir q) files) =
           (if q = path then checkMissingChecksum [] q (Base q) (Dir q) files else [])" for q
    by (simp add: checkMissingChecksum_new)
  have b: "filter (\<lambda>f. ruleId f = ''ARTINT-001'' \<and> locFile f = path)
             (checkUnsignedArtifact [] q (Base q) (Dir q) files) = []" for q
    by (simp add: checkUnsignedArtifact_new)
  have c: "filter (\<lambda>f. ruleId f = ''ARTINT-001'' \<and> locFile f = path)
             (checkChecksumMismatches w [] q (Dir q)) = []" for q
    by (rule filter_none) (auto dest: checkChecksumMismatches_rule)
  have d: "filter (\<lambda>f. ruleId f = ''ARTINT-001'' \<and> locFile f = path)
             (checkLockfileIntegrity w [] q) = []" for q
    by (rule filter_none) (auto dest: checkLockfileIntegrity_rule)
  show ?thesis
    by (simp add: analyzeFile_parts a b c d)
qed

lemma analyzeFile_rule2:
  "filter (\<lambda>f. ruleId f = ''ARTINT-002'' \<and> locFile f = path) (analyzeFile w files p []) =
     (if p = path \<and> isReleaseArtifact w (Base p)
      then checkUnsignedArtifact [] p (Base p) (Dir p) files else [])"
proof -
  have a: "filter (\<lambda>f. ruleId f = ''ARTINT-002'' \<and> locFile f = path)
             (checkUnsignedArtifact [] q (Base q) (Dir q) files) =
           (if q = path then checkUnsignedArtifact [] q (Base q) (Dir q) files else [])" for q
    by (simp add: checkUnsignedArtifact_new)
  have b: "filter (\<lambda>f. ruleId f = ''ARTINT-002'' \<and> locFile f = path)
             (checkMissingChecksum [] q (Base q) (Dir q) files) = []" for q
    by (simp add: checkMissingChecksum_new)
  have c: "filter (\<lambda>f. ruleId f = ''ARTINT-002'' \<and> locFile f = path)
             (checkChecksumMismatches w [] q (Dir q)) = []" for q
    by (rule filter_none) (auto dest: checkChecksumMismatches_rule)
  have d: "filter (\<lambda>f. ruleId f = ''ARTINT-002'' \<and> locFile f = path)
             (checkLockfileIntegrity w [] q) = []" for q
    by (rule filter_none) (auto dest: checkLockfileIntegrity_rule)
  show ?thesis
    by (simp add: analyzeFile_parts a b c d)
qed

lemma concat_single:
  assumes "distinct xs" and "x \<in> set xs" and "\<And>y. y \<in> set xs \<Longrightarrow> y \<noteq> x \<Longrightarrow> g y = []"
  shows "concat (map g xs) = g x"
  using assms
proof (induction xs)
  case Nil
  then show ?case by simp
next
  case (Cons a xs)
  show ?case
  proof (cases "a = x")
    case True
    then have "x \<notin> set xs" using Cons.prems(1) by simp
    then have "\<And>y. y \<in> set xs \<Longrightarrow> g y = []"
      using Cons.prems(3) by auto
    then have "concat (map g xs) = []" by simp
    then show ?thesis using True by simp
  next
    case False
    then have "g a = []" using Cons.prems(3) by simp
    moreover have "concat (map g xs) = g x"
      using Cons.IH Cons.prems False by auto
    ultimately show ?thesis by simp
  qed
qed

lemma walkFn_outcome: "walkOutcome ctx (fst (walkFn ctx path d err st))"
  by (auto simp: walkFn_def walkOutcome_def ctxErr_def Let_def
      split: option.splits fsnode.splits if_splits)

lemma walkFn_indexed: "indexed st \<Longrightarrow> indexed (snd (walkFn ctx path d err st))"
  by (auto simp: walkFn_def indexed_def Let_def split: option.splits fsnode.splits)

lemma walk_outcome_indexed:
  "indexed st \<Longrightarrow>
     walkOutcome ctx (fst (walkDir ctx path d st)) \<and> indexed (snd (walkDir ctx path d st))"
  "indexed st \<Longrightarrow>
     walkOutcome ctx (fst (walkEntries ctx path ds st)) \<and>
     indexed (snd (walkEntries ctx path ds st))"
proof (induction ctx path d st and ctx path ds st rule: walkDir_walkEntries.induct)
  case (1 ctx path n st)
  then show ?case
    using walkFn_outcome [of ctx path "Some (File n)" False st]
      walkFn_indexed [of st ctx path "Some (File n)" False]
    by simp
next
  case (2 ctx path n es e st)
  obtain r1 st1 where f1: "walkFn ctx path (Some (Directory n es e)) False st = (r1, st1)"
    by (cases "walkFn ctx path (Some (Directory n es e)) False st")
  have o1: "walkOutcome ctx r1" and i1: "indexed st1"
    using walkFn_outcome [of ctx path "Some (Directory n es e)" False st]
      walkFn_indexed [OF "2.prems", of ctx path "Some (Directory n es e)" False] f1
    by simp_all
  show ?case
  proof (cases r1)
    case (Some err)
    then show ?thesis
      using o1 i1 f1 by (auto simp: walkOutcome_def)
  next
    case None
    obtain r2 st2 where f2:
      "(if e then walkFn ctx path (Some (Directory n es e)) True st1 else (None, st1)) = (r2, st2)"
      by (cases "if e then walkFn ctx path (Some (Directory n es e)) True st1 else (None, st1)")
    have o2: "walkOutcome ctx r2" and i2: "indexed st2"
      using walkFn_outcome [of ctx path "Some (Directory n es e)" True st1]
        walkFn_indexed [OF i1, of ctx path "Some (Directory n es e)" True] f2 i1
      by (auto simp: walkOutcome_def split: if_splits)
    show ?thesis
    proof (cases r2)
      case (Some err)
      then show ?thesis
        using o2 i2 f1 f2 None by (auto simp: walkOutcome_def)
    next
      case r2: None
      have "walkOutcome ctx (fst (walkEntries ctx path es st2)) \<and>
            indexed (snd (walkEntries ctx path es st2))"
        using "2.IH" [OF f1 [symmetric] None f2 [symmetric] r2 i2] by simp
      then show ?thesis
        using f1 f2 None r2 by simp
    qed
  qed
next
  case (3 ctx path st)
  then show ?case by (simp add: walkOutcome_def)
next
  case (4 ctx path d1 ds st)
  obtain r1 st1 where f1: "walkDir ctx (Join path (nodeName d1)) d1 st = (r1, st1)"
    by (cases "walkDir ctx (Join path (nodeName d1)) d1 st")
  have o1: "walkOutcome ctx r1" and i1: "indexed st1"
    using "4.IH"(1) [OF "4.prems"] f1 by simp_all
  show ?case
  proof (cases r1)
    case (Some err)
    then show ?thesis
      using o1 i1 f1 by (auto simp: walkOutcome_def)
  next
    case None
    have "walkOutcome ctx (fst (walkEntries ctx path ds st1)) \<and>
          indexed (snd (walkEntries ctx path ds st1))"
      using "4.IH"(2) [OF f1 [symmetric] None i1] by simp
    then show ?thesis
      using f1 None by simp
  qed
qed

lemma WalkDir_outcome:
  "(fst (WalkDir w ctx root \<lparr>allFiles = [], fileSet = {}, looks = 0\<rparr>) = None \<or>
    (\<exists>k e. ctx = Some (k, e) \<and>
       fst (WalkDir w ctx root \<lparr>allFiles = [], fileSet = {}, looks = 0\<rparr>) = Some (CtxError e))) \<and>
   indexed (scanIndex w ctx root)"
proof -
  let ?init = "\<lparr>allFiles = [], fileSet = {}, looks = 0\<rparr>"
  have i: "indexed ?init" by (simp add: indexed_def)
  show ?thesis
  proof (cases "Lstat w root")
    case None
    obtain r st where f: "walkFn ctx root None True ?init = (r, st)"
      by (cases "walkFn ctx root None True ?init")
    show ?thesis
      using walkFn_outcome [of ctx root None True ?init] walkFn_indexed [OF i, of ctx root None True] f
      by (auto simp: WalkDir_def scanIndex_def None walkOutcome_def split: option.splits)
  next
    case (Some info)
    obtain r st where f: "walkDir ctx root info ?init = (r, st)"
      by (cases "walkDir ctx root info ?init")
    show ?thesis
      using walk_outcome_indexed(1) [OF i, of ctx root info] f
      by (auto simp: WalkDir_def scanIndex_def Some walkOutcome_def split: option.splits)
  qed
qed

lemma handleScan_result:
  assumes "requestRoot req \<noteq> []"
    and "ctx = None \<or> (\<exists>k. ctx = Some (k, Canceled)) \<or>
         fst (WalkDir w ctx (requestRoot req) \<lparr>allFiles = [], fileSet = {}, looks = 0\<rparr>) = None"
  shows "handleScan w ctx req =
     Inr (concat (map (\<lambda>p. analyzeFile w (fileSet (scanIndex w ctx (requestRoot req))) p [])
            (analyzed ctx (looks (scanIndex w ctx (requestRoot req)))
               (allFiles (scanIndex w ctx (requestRoot req))))))"
proof -
  let ?init = "\<lparr>allFiles = [], fileSet = {}, looks = 0\<rparr>"
  obtain r st where f: "WalkDir w ctx (requestRoot req) ?init = (r, st)"
    by (cases "WalkDir w ctx (requestRoot req) ?init")
  have st: "scanIndex w ctx (requestRoot req) = st"
    by (simp add: scanIndex_def f)
  have r: "r = None \<or> r = Some (CtxError Canceled)"
    using WalkDir_outcome [of w ctx "requestRoot req"] assms(2) f by auto
  show ?thesis
    using r assms(1)
    by (auto simp: handleScan_def Let_def f st analyzeLoop_concat)
qed

lemma exIndex_files:
  "allFiles (scanIndex exWorld None ''ws'') =
     [''ws/dist/lib.zip'', ''ws/dist/lib.zip.sha256'', ''ws/dist/package-lock.json'',
      ''ws/dist/tool.deb'', ''ws/go.sum'', ''ws/package-lock.json'',
      ''ws/release/SHA256SUMS'', ''ws/release/app.tar.gz'', ''ws/release/app.tar.gz.asc'',
      ''ws/yarn.lock'']"
  by (simp add: scanIndex_def WalkDir_def exWorld_def exTree_def walkFn_def ctxErr_def
      skippedDirs_def Join_def Clean_def HasPrefix_def cleanElem_def)

lemma exRequest_root: "requestRoot exRequest = ''ws''"
  by (simp add: requestRoot_def exRequest_def)

section \<open>Release artifacts\<close>

text \<open>
  C2. Take a scan whose context is never done, and a file of its index whose base name,
  lowered, ends with a release-artifact extension (the paths of the index being
  distinct). The file index is the set of the indexed paths. If the index holds the
  path directory/name+ext for some checksum extension, or directory/manifest for some
  manifest name, the scan emits no ARTINT-001 finding at the file; otherwise it emits
  exactly one, with severity High, confidence High and type \<open>missing_checksum\<close>.
\<close>

theorem missing_checksum_iff:
  assumes "requestRoot req \<noteq> []"
    and "distinct (allFiles (scanIndex w None (requestRoot req)))"
    and "path \<in> set (allFiles (scanIndex w None (requestRoot req)))"
    and "isReleaseArtifact w (Base path)"
  shows "fileSet (scanIndex w None (requestRoot req)) =
           set (allFiles (scanIndex w None (requestRoot req))) \<and>
     (\<exists>fs. handleScan w None req = Inr fs \<and>
        (if (\<exists>ext\<in>set checksumExtensions.
               Join (Dir path) (Base path @ ext) \<in> fileSet (scanIndex w None (requestRoot req))) \<or>
            (\<exists>csName\<in>set checksumFileNames.
               Join (Dir path) csName \<in> fileSet (scanIndex w None (requestRoot req)))
         then filter (\<lambda>f. ruleId f = ''ARTINT-001'' \<and> locFile f = path) fs = []
         else (\<exists>f. filter (\<lambda>f. ruleId f = ''ARTINT-001'' \<and> locFile f = path) fs = [f] \<and>
                 severity f = SeverityHigh \<and> confidence f = ConfidenceHigh \<and>
                 map_of (metadata f) ''type'' = Some ''missing_checksum'')))"
proof -
  let ?idx = "scanIndex w None (requestRoot req)"
  let ?fs = "concat (map (\<lambda>p. analyzeFile w (fileSet ?idx) p []) (allFiles ?idx))"
  let ?P = "\<lambda>f. ruleId f = ''ARTINT-001'' \<and> locFile f = path"
  have i: "fileSet ?idx = set (allFiles ?idx)"
    using WalkDir_outcome [of w None "requestRoot req"] by (simp add: indexed_def)
  have h: "handleScan w None req = Inr ?fs"
    using handleScan_result [OF assms(1), of None w] by (simp add: analyzed_def)
  have "filter ?P ?fs =
          concat (map (\<lambda>p. filter ?P (analyzeFile w (fileSet ?idx) p [])) (allFiles ?idx))"
    by (simp add: filter_concat comp_def)
  also have "\<dots> = filter ?P (analyzeFile w (fileSet ?idx) path [])"
    using assms(2) assms(3)
  proof (rule concat_single)
    fix y assume "y \<in> set (allFiles ?idx)" and "y \<noteq> path"
    then show "filter ?P (analyzeFile w (fileSet ?idx) y []) = []"
      by (simp add: analyzeFile_rule1)
  qed
  also have "\<dots> = checkMissingChecksum [] path (Base path) (Dir path) (fileSet ?idx)"
    using assms(4) by (simp add: analyzeFile_rule1)
  finally have f: "filter ?P ?fs =
      checkMissingChecksum [] path (Base path) (Dir path) (fileSet ?idx)" .
  have "if (\<exists>ext\<in>set checksumExtensions. Join (Dir path) (Base path @ ext) \<in> fileSet ?idx) \<or>
           (\<exists>csName\<in>set checksumFileNames. Join (Dir path) csName \<in> fileSet ?idx)
        then filter ?P ?fs = []
        else (\<exists>f. filter ?P ?fs = [f] \<and>
                severity f = SeverityHigh \<and> confidence f = ConfidenceHigh \<and>
                map_of (metadata f) ''type'' = Some ''missing_checksum'')"
    by (simp only: f checkMissingChecksum_new) simp
  then show ?thesis
    using i h by blast
qed

theorem missing_checksum_iff_witness:
  "requestRoot exRequest = ''ws'' \<and>
   distinct (allFiles (scanIndex exWorld None ''ws'')) \<and>
   ''ws/dist/tool.deb'' \<in> set (allFiles (scanIndex exWorld None ''ws'')) \<and>
   isReleaseArtifact exWorld (Base ''ws/dist/tool.deb'') \<and>
   ''ws/release/app.tar.gz'' \<in> set (allFiles (scanIndex exWorld None ''ws'')) \<and>
   isReleaseArtifact exWorld (Base ''ws/release/app.tar.gz'') \<and>
   Join (Dir ''ws/release/app.tar.gz'') ''SHA256SUMS'' \<in> fileSet (scanIndex exWorld None ''ws'') \<and>
   (\<exists>fs f. handleScan exWorld None exRequest = Inr fs \<and>
      filter (\<lambda>f. ruleId f = ''ARTINT-001'' \<and> locFile f = ''ws/dist/tool.deb'') fs = [f] \<and>
      severity f = SeverityHigh \<and> confidence f = ConfidenceHigh \<and>
      map_of (metadata f) ''type'' = Some ''missing_checksum'' \<and>
      filter (\<lambda>f. ruleId f = ''ARTINT-001'' \<and> locFile f = ''ws/release/app.tar.gz'') fs = [])"
proof -
  have r: "requestRoot exRequest \<noteq> []"
    by (simp add: exRequest_root)
  have d: "distinct (allFiles (scanIndex exWorld None (requestRoot exRequest)))"
    by (simp add: exRequest_root exIndex_files)
  have m1: "''ws/dist/tool.deb'' \<in> set (allFiles (scanIndex exWorld None (requestRoot exRequest)))"
    by (simp add: exRequest_root exIndex_files)
  have m2: "''ws/release/app.tar.gz'' \<in> set (allFiles (scanIndex exWorld None (requestRoot exRequest)))"
    by (simp add: exRequest_root exIndex_files)
  have a1: "isReleaseArtifact exWorld (Base ''ws/dist/tool.deb'')"
    by (simp add: Base_def isReleaseArtifact_def ToLower_def isASCII_def lowerASCII_def
        releaseArtifactExtensions_def HasSuffix_def)
  have a2: "isReleaseArtifact exWorld (Base ''ws/release/app.tar.gz'')"
    by (simp add: Base_def isReleaseArtifact_def ToLower_def isASCII_def lowerASCII_def
        releaseArtifactExtensions_def HasSuffix_def)
  note t1 = missing_checksum_iff [OF r d m1 a1]
  note t2 = missing_checksum_iff [OF r d m2 a2]
  have fs: "fileSet (scanIndex exWorld None ''ws'') = set (allFiles (scanIndex exWorld None ''ws''))"
    using t1 by (simp add: exRequest_root)
  have c1: "\<not> ((\<exists>ext\<in>set checksumExtensions.
               Join (Dir ''ws/dist/tool.deb'') (Base ''ws/dist/tool.deb'' @ ext)
                 \<in> fileSet (scanIndex exWorld None (requestRoot exRequest))) \<or>
            (\<exists>csName\<in>set checksumFileNames.
               Join (Dir ''ws/dist/tool.deb'') csName
                 \<in> fileSet (scanIndex exWorld None (requestRoot exRequest))))"
    unfolding exRequest_root fs exIndex_files
    by (simp add: checksumExtensions_def checksumFileNames_def Base_def Dir_def Join_def
        Clean_def HasPrefix_def cleanElem_def)
  have c2: "Join (Dir ''ws/release/app.tar.gz'') ''SHA256SUMS''
              \<in> fileSet (scanIndex exWorld None ''ws'')"
    unfolding fs exIndex_files
    by (simp add: Dir_def Join_def Clean_def HasPrefix_def cleanElem_def)
  have c2': "(\<exists>ext\<in>set checksumExtensions.
               Join (Dir ''ws/release/app.tar.gz'') (Base ''ws/release/app.tar.gz'' @ ext)
                 \<in> fileSet (scanIndex exWorld None (requestRoot exRequest))) \<or>
            (\<exists>csName\<in>set checksumFileNames.
               Join (Dir ''ws/release/app.tar.gz'') csName
                 \<in> fileSet (scanIndex exWorld None (requestRoot exRequest)))"
    using c2 by (auto simp: exRequest_root checksumFileNames_def)
  obtain fs1 f where e1: "handleScan exWorld None exRequest = Inr fs1"
    "filter (\<lambda>f. ruleId f = ''ARTINT-001'' \<and> locFile f = ''ws/dist/tool.deb'') fs1 = [f]"
    "severity f = SeverityHigh" "confidence f = ConfidenceHigh"
    "map_of (metadata f) ''type'' = Some ''missing_checksum''"
    using t1 c1 by (simp only: if_False) blast
  have e2: "filter (\<lambda>f. ruleId f = ''ARTINT-001'' \<and> locFile f = ''ws/release/app.tar.gz'') fs1 = []"
    using t2 c2' e1(1) by (simp only: if_True) auto
  show ?thesis
    using exRequest_root d m1 m2 a1 a2 c2 e1 e2 unfolding exRequest_root by blast
qed

text \<open>
  C5. Under the same conditions the scan emits no ARTINT-002 finding at the file if the
  index holds the path directory/name+ext for some signature extension, and otherwise
  exactly one, with severity Medium, confidence Medium and type \<open>unsigned_artifact\<close>.
  Nothing else enters the condition: neither the checksum companions nor any file of the
  directory other than the signature companions.
\<close>

theorem unsigned_artifact_iff:
  assumes "requestRoot req \<noteq> []"
    and "distinct (allFiles (scanIndex w None (requestRoot req)))"
    and "path \<in> set (allFiles (scanIndex w None (requestRoot req)))"
    and "isReleaseArtifact w (Base path)"
  shows "fileSet (scanIndex w None (requestRoot req)) =
           set (allFiles (scanIndex w None (requestRoot req))) \<and>
     (\<exists>fs. handleScan w None req = Inr fs \<and>
        (if (\<exists>ext\<in>set signatureExtensions.
               Join (Dir path) (Base path @ ext) \<in> fileSet (scanIndex w None (requestRoot req)))
         then filter (\<lambda>f. ruleId f = ''ARTINT-002'' \<and> locFile f = path) fs = []
         else (\<exists>f. filter (\<lambda>f. ruleId f = ''ARTINT-002'' \<and> locFile f = path) fs = [f] \<and>
                 severity f = SeverityMedium \<and> confidence f = ConfidenceMedium \<and>
                 map_of (metadata f) ''type'' = Some ''unsigned_artifact'')))"
proof -
  let ?idx = "scanIndex w None (requestRoot req)"
  let ?fs = "concat (map (\<lambda>p. analyzeFile w (fileSet ?idx) p []) (allFiles ?idx))"
  let ?P = "\<lambda>f. ruleId f = ''ARTINT-002'' \<and> locFile f = path"
  have i: "fileSet ?idx = set (allFiles ?idx)"
    using WalkDir_outcome [of w None "requestRoot req"] by (simp add: indexed_def)
  have h: "handleScan w None req = Inr ?fs"
    using handleScan_result [OF assms(1), of None w] by (simp add: analyzed_def)
  have "filter ?P ?fs =
          concat (map (\<lambda>p. filter ?P (analyzeFile w (fileSet ?idx) p [])) (allFiles ?idx))"
    by (simp add: filter_concat comp_def)
  also have "\<dots> = filter ?P (analyzeFile w (fileSet ?idx) path [])"
    using assms(2) assms(3)
  proof (rule concat_single)
    fix y assume "y \<in> set (allFiles ?idx)" and "y \<noteq> path"
    then show "filter ?P (analyzeFile w (fileSet ?idx) y []) = []"
      by (simp add: analyzeFile_rule2)
  qed
  also have "\<dots> = checkUnsignedArtifact [] path (Base path) (Dir path) (fileSet ?idx)"
    using assms(4) by (simp add: analyzeFile_rule2)
  finally have f: "filter ?P ?fs =
      checkUnsignedArtifact [] path (Base path) (Dir path) (fileSet ?idx)" .
  have "if (\<exists>ext\<in>set signatureExtensions. Join (Dir path) (Base path @ ext) \<in> fileSet ?idx)
        then filter ?P ?fs = []
        else (\<exists>f. filter ?P ?fs = [f] \<and>
                severity f = SeverityMedium \<and> confidence f = ConfidenceMedium \<and>
                map_of (metadata f) ''type'' = Some ''unsigned_artifact'')"
    by (simp only: f checkUnsignedArtifact_new) simp
  then show ?thesis
    using i h by blast
qed

theorem unsigned_artifact_iff_witness:
  "requestRoot exRequest = ''ws'' \<and>
   distinct (allFiles (scanIndex exWorld None ''ws'')) \<and>
   ''ws/dist/lib.zip'' \<in> set (allFiles (scanIndex exWorld None ''ws'')) \<and>
   isReleaseArtifact exWorld (Base ''ws/dist/lib.zip'') \<and>
   Join (Dir ''ws/dist/lib.zip'') (Base ''ws/dist/lib.zip'' @ ''.sha256'')
     \<in> fileSet (scanIndex exWorld None ''ws'') \<and>
   ''ws/release/app.tar.gz'' \<in> set (allFiles (scanIndex exWorld None ''ws'')) \<and>
   isReleaseArtifact exWorld (Base ''ws/release/app.tar.gz'') \<and>
   Join (Dir ''ws/release/app.tar.gz'') (Base ''ws/release/app.tar.gz'' @ ''.asc'')
     \<in> fileSet (scanIndex exWorld None ''ws'') \<and>
   (\<exists>fs f. handleScan exWorld None exRequest = Inr fs \<and>
      filter (\<lambda>f. ruleId f = ''ARTINT-002'' \<and> locFile f = ''ws/dist/lib.zip'') fs = [f] \<and>
      severity f = SeverityMedium \<and> confidence f = ConfidenceMedium \<and>
      map_of (metadata f) ''type'' = Some ''unsigned_artifact'' \<and>
      filter (\<lambda>f. ruleId f = ''ARTINT-002'' \<and> locFile f = ''ws/release/app.tar.gz'') fs = [])"
proof -
  have r: "requestRoot exRequest \<noteq> []"
    by (simp add: exRequest_root)
  have d: "distinct (allFiles (scanIndex exWorld None (requestRoot exRequest)))"
    by (simp add: exRequest_root exIndex_files)
  have m1: "''ws/dist/lib.zip'' \<in> set (allFiles (scanIndex exWorld None (requestRoot exRequest)))"
    by (simp add: exRequest_root exIndex_files)
  have m2: "''ws/release/app.tar.gz'' \<in> set (allFiles (scanIndex exWorld None (requestRoot exRequest)))"
    by (simp add: exRequest_root exIndex_files)
  have a1: "isReleaseArtifact exWorld (Base ''ws/dist/lib.zip'')"
    by (simp add: Base_def isReleaseArtifact_def ToLower_def isASCII_def lowerASCII_def
        releaseArtifactExtensions_def HasSuffix_def)
  have a2: "isReleaseArtifact exWorld (Base ''ws/release/app.tar.gz'')"
    by (simp add: Base_def isReleaseArtifact_def ToLower_def isASCII_def lowerASCII_def
        releaseArtifactExtensions_def HasSuffix_def)
  note t1 = unsigned_artifact_iff [OF r d m1 a1]
  note t2 = unsigned_artifact_iff [OF r d m2 a2]
  have fs: "fileSet (scanIndex exWorld None ''ws'') = set (allFiles (scanIndex exWorld None ''ws''))"
    using t1 by (simp add: exRequest_root)
  have c0: "Join (Dir ''ws/dist/lib.zip'') (Base ''ws/dist/lib.zip'' @ ''.sha256'')
              \<in> fileSet (scanIndex exWorld None ''ws'')"
    unfolding fs exIndex_files
    by (simp add: Base_def Dir_def Join_def Clean_def HasPrefix_def cleanElem_def)
  have c1: "\<not> (\<exists>ext\<in>set signatureExtensions.
               Join (Dir ''ws/dist/lib.zip'') (Base ''ws/dist/lib.zip'' @ ext)
                 \<in> fileSet (scanIndex exWorld None (requestRoot exRequest)))"
    unfolding exRequest_root fs exIndex_files
    by (simp add: signatureExtensions_def Base_def Dir_def Join_def
        Clean_def HasPrefix_def cleanElem_def)
  have c2: "Join (Dir ''ws/release/app.tar.gz'') (Base ''ws/release/app.tar.gz'' @ ''.asc'')
              \<in> fileSet (scanIndex exWorld None ''ws'')"
    unfolding fs exIndex_files
    by (simp add: Base_def Dir_def Join_def Clean_def HasPrefix_def cleanElem_def)
  have c2': "\<exists>ext\<in>set signatureExtensions.
               Join (Dir ''ws/release/app.tar.gz'') (Base ''ws/release/app.tar.gz'' @ ext)
                 \<in> fileSet (scanIndex exWorld None (requestRoot exRequest))"
    using c2 by (auto simp: exRequest_root signatureExtensions_def)
  obtain fs1 f where e1: "handleScan exWorld None exRequest = Inr fs1"
    "filter (\<lambda>f. ruleId f = ''ARTINT-002'' \<and> locFile f = ''ws/dist/lib.zip'') fs1 = [f]"
    "severity f = SeverityMedium" "confidence f = ConfidenceMedium"
    "map_of (metadata f) ''type'' = Some ''unsigned_artifact''"
    using t1 c1 by (simp only: if_False) blast
  have e2: "filter (\<lambda>f. ruleId f = ''ARTINT-002'' \<and> locFile f = ''ws/release/app.tar.gz'') fs1 = []"
    using t2 c2' e1(1) by (simp only: if_True) auto
  show ?thesis
    using exRequest_root d m1 m2 a1 a2 c0 c2 e1 e2 unfolding exRequest_root by blast
qed

end
